theory Spec2Isabelle
  imports Main "HOL-Library.Char_ord" "HOL-Library.List_Lexorder" "HOL-Library.Option_ord"
begin

section \<open>Flow views of temba/flows/views.py\<close>

text \<open>
  The views are Django request handlers. Each handler is embedded as a function from the
  part of the database and of the request it reads to the response it returns and the
  part of the database it writes. An exception is a value of a sum type, \<open>Inl\<close> on the
  left. Functions of other modules (the ORM models, mailroom, packaging) are parameters
  of the handler that calls them, or are given a definition that says where it comes from.
\<close>

subsection \<open>Activity chart: histogram granularity\<close>

text \<open>
  A \<open>datetime\<close> is the number of microseconds since the epoch and a \<open>timedelta\<close> a number
  of microseconds: Python compares two timedeltas by (days, seconds, microseconds), which
  is the order of their totals in microseconds.
\<close>

type_synonym datetime = int
type_synonym timedelta = int

definition timedelta_hours :: "int \<Rightarrow> timedelta" where
  "timedelta_hours h = h * 3600000000"

definition timedelta_days :: "int \<Rightarrow> timedelta" where
  "timedelta_days d = d * 86400000000"

text \<open>The unit handed to \<open>date_trunc\<close> in the extra bucket column.\<close>

datatype bucket = Hour | Day | Week

text \<open>The Python exceptions that end a request in the handlers below.\<close>

datatype py_error = TypeError | KeyError string | InvalidVersion string

definition HISTOGRAM_MIN :: int where
  "HISTOGRAM_MIN = 0"

text \<open>
  Lines 1641-1651 of \<open>ActivityChart.get_context_data\<close>: the bucket column of the histogram
  and \<open>min_date\<close>, from the least and the greatest period.
\<close>

definition histogram_bucket :: "datetime \<Rightarrow> datetime \<Rightarrow> bucket \<times> datetime" where
  "histogram_bucket start_date end_date =
     (let date_range = end_date - start_date in
      if date_range < timedelta_days 21 then (Hour, start_date - timedelta_hours 1)
      else if date_range < timedelta_days 500 then (Day, end_date - timedelta_days 100)
      else (Week, end_date - timedelta_days 500))"

text \<open>
  Lines 1639-1657: the histogram is part of the context only when there are responses.
  The aggregate over no row gives \<open>None\<close> for both dates, and \<open>None - None\<close> is a
  TypeError.
\<close>

definition histogram_context ::
  "int \<Rightarrow> datetime option \<Rightarrow> datetime option \<Rightarrow> py_error + (bucket \<times> datetime) option" where
  "histogram_context total_responses start_date end_date =
     (if total_responses > HISTOGRAM_MIN then
        (case (start_date, end_date) of
           (Some s, Some e) \<Rightarrow> Inr (Some (histogram_bucket s e))
         | _ \<Rightarrow> Inl TypeError)
      else Inr None)"

subsection \<open>Activity chart: run counts\<close>

text \<open>
  \<open>FlowRun.EXIT_TYPE_COMPLETED\<close>, \<open>EXIT_TYPE_INTERRUPTED\<close> and \<open>EXIT_TYPE_EXPIRED\<close> are the
  choices of the \<open>exit_type\<close> column; the column is \<open>None\<close> for a run that is active.
\<close>

datatype exit_type = EXIT_TYPE_COMPLETED | EXIT_TYPE_INTERRUPTED | EXIT_TYPE_EXPIRED

record flow_run_count =
  frc_flow :: nat
  frc_exit_type :: "exit_type option"
  frc_count :: int

text \<open>The dictionary \<open>ActivityChart.EXIT_TYPES\<close>, lines 1571-1576.\<close>

definition EXIT_TYPES :: "exit_type option \<rightharpoonup> string" where
  "EXIT_TYPES =
     [None \<mapsto> ''active'',
      Some EXIT_TYPE_COMPLETED \<mapsto> ''completed'',
      Some EXIT_TYPE_INTERRUPTED \<mapsto> ''interrupted'',
      Some EXIT_TYPE_EXPIRED \<mapsto> ''expired'']"

text \<open>
  Line 1659, \<open>FlowRunCount.objects.filter(flow=flow).values("exit_type").annotate(Sum("count"))\<close>:
  one group for each exit type that a row of the flow has, with the sum of the counts of
  the rows of that type. The query has no \<open>order_by\<close>; the groups are listed here in the
  order in which the types first occur.
\<close>

definition exit_type_sums :: "flow_run_count list \<Rightarrow> nat \<Rightarrow> (exit_type option \<times> int) list" where
  "exit_type_sums rows flow =
     (let of_flow = filter (\<lambda>r. frc_flow r = flow) rows in
      map (\<lambda>e. (e, sum_list (map frc_count (filter (\<lambda>r. frc_exit_type r = e) of_flow))))
        (remdups (map frc_exit_type of_flow)))"

text \<open>
  The template context, restricted to its integer entries. Lines 1661-1665: the loop over
  the groups; \<open>self.EXIT_TYPES[...]\<close> raises KeyError on a key the dictionary lacks.
\<close>

type_synonym template_context = "string \<rightharpoonup> int"

fun tally_counts ::
  "(exit_type option \<times> int) list \<Rightarrow> template_context \<times> int \<Rightarrow> py_error + template_context \<times> int" where
  "tally_counts [] (ctx, total_runs) = Inr (ctx, total_runs)"
| "tally_counts ((exit_type, count_sum) # counts) (ctx, total_runs) =
     (case EXIT_TYPES exit_type of
        None \<Rightarrow> Inl (KeyError ''exit_type'')
      | Some key \<Rightarrow> tally_counts counts (ctx(key \<mapsto> count_sum), total_runs + count_sum))"

text \<open>Lines 1667-1670: every state the loop left out is set to zero.\<close>

fun default_states :: "string list \<Rightarrow> template_context \<Rightarrow> template_context" where
  "default_states [] ctx = ctx"
| "default_states (state # states) ctx =
     default_states states (if ctx state = None then ctx(state \<mapsto> 0) else ctx)"

text \<open>
  Lines 1659-1675: the end of \<open>ActivityChart.get_context_data\<close>, from the context that the
  earlier part of the method has built.
\<close>

definition run_counts_context ::
  "flow_run_count list \<Rightarrow> nat \<Rightarrow> int \<Rightarrow> template_context \<Rightarrow> py_error + template_context" where
  "run_counts_context rows flow total_responses ctx =
     (case tally_counts (exit_type_sums rows flow) (ctx, 0) of
        Inl e \<Rightarrow> Inl e
      | Inr (ctx1, total_runs) \<Rightarrow>
          Inr ((default_states [''expired'', ''interrupted'', ''completed'', ''active''] ctx1)
                 (''total_runs'' \<mapsto> total_runs, ''total_responses'' \<mapsto> total_responses)))"

text \<open>
  The tally that the table of run counts stores for a flow and an exit type: the sum of the
  counts of its rows, zero when it has none. The name under which the chart reports it.
\<close>

definition stored_count :: "flow_run_count list \<Rightarrow> nat \<Rightarrow> exit_type option \<Rightarrow> int" where
  "stored_count rows flow e =
     sum_list (map frc_count (filter (\<lambda>r. frc_flow r = flow \<and> frc_exit_type r = e) rows))"

definition state_name :: "exit_type option \<Rightarrow> string" where
  "state_name e =
     (case e of
        None \<Rightarrow> ''active''
      | Some EXIT_TYPE_COMPLETED \<Rightarrow> ''completed''
      | Some EXIT_TYPE_INTERRUPTED \<Rightarrow> ''interrupted''
      | Some EXIT_TYPE_EXPIRED \<Rightarrow> ''expired'')"

subsection \<open>Revisions: the listing\<close>

text \<open>
  A row of \<open>FlowRevision\<close>. The spec version is the string of the column; \<open>Version\<close> of
  the packaging library parses it and raises InvalidVersion on a string that is no version.
\<close>

record flow_revision =
  rev_id :: nat
  rev_flow :: nat
  revision :: nat
  spec_version :: string

text \<open>
  What the body of the \<open>try\<close> of lines 295-298 can raise: a ValueError (or a subclass of
  it), caught at line 300, or another subclass of Exception, caught at line 304; each with
  the text of \<open>str(e)\<close>.
\<close>

datatype exn = ValueError string | OtherException string

text \<open>
  What the listing uses of the other modules: the constructor \<open>Version\<close> (\<open>None\<close> when it
  raises) into a linear order, the two version constants of \<open>Flow\<close>, the two methods of
  \<open>FlowRevision\<close> that migrate and validate a legacy definition, and \<open>as_json\<close>.
\<close>

record ('v, 'd, 'j) revision_models =
  Version :: "string \<Rightarrow> 'v option"
  INITIAL_GOFLOW_VERSION :: string
  FINAL_LEGACY_VERSION :: string
  get_migrated_definition :: "flow_revision \<Rightarrow> string \<Rightarrow> exn + 'd"
  validate_legacy_definition :: "'d \<Rightarrow> exn + unit"
  as_json :: "flow_revision \<Rightarrow> 'j"

text \<open>A call of \<open>logger.error\<close> at line 306: the flow's uuid, the revision's id, \<open>str(e)\<close>.\<close>

datatype log_entry = LogError string nat string

text \<open>Lines 296-297, the two calls inside the \<open>try\<close> before the append.\<close>

definition validate_legacy :: "('v, 'd, 'j) revision_models \<Rightarrow> flow_revision \<Rightarrow> exn + unit" where
  "validate_legacy m r =
     (case get_migrated_definition m r (FINAL_LEGACY_VERSION m) of
        Inl e \<Rightarrow> Inl e
      | Inr legacy_flow_def \<Rightarrow> validate_legacy_definition m legacy_flow_def)"

text \<open>
  Lines 286-309, the body of the loop on the revisions that are left, with the list
  \<open>revisions\<close> and the log built so far. The two calls of \<open>Version\<close> are outside the
  \<open>try\<close>: an InvalidVersion leaves the loop and the request.
\<close>

fun list_revisions ::
  "('v::linorder, 'd, 'j) revision_models \<Rightarrow> string \<Rightarrow> flow_revision list \<Rightarrow>
     'j list \<times> log_entry list \<Rightarrow> py_error + 'j list \<times> log_entry list" where
  "list_revisions m uuid [] (revisions, log) = Inr (revisions, log)"
| "list_revisions m uuid (r # rs) (revisions, log) =
     (case Version m (spec_version r) of
        None \<Rightarrow> Inl (InvalidVersion (spec_version r))
      | Some revision_version \<Rightarrow>
          (case Version m (INITIAL_GOFLOW_VERSION m) of
             None \<Rightarrow> Inl (InvalidVersion (INITIAL_GOFLOW_VERSION m))
           | Some initial_version \<Rightarrow>
               if revision_version \<ge> initial_version
               then list_revisions m uuid rs (revisions @ [as_json m r], log)
               else
                 (case validate_legacy m r of
                    Inr _ \<Rightarrow> list_revisions m uuid rs (revisions @ [as_json m r], log)
                  | Inl (ValueError _) \<Rightarrow> list_revisions m uuid rs (revisions, log)
                  | Inl (OtherException e) \<Rightarrow>
                      list_revisions m uuid rs (revisions, log @ [LogError uuid (rev_id r) e]))))"

text \<open>
  Line 286, \<open>flow.revisions.all().order_by("-revision")[:100]\<close>: the revisions of the flow,
  the greatest revision number first, and the first hundred of them.
\<close>

definition order_by_revision_desc :: "flow_revision list \<Rightarrow> flow_revision list" where
  "order_by_revision_desc revs = sort_key (\<lambda>r. - int (revision r)) revs"

definition latest_revisions :: "nat \<Rightarrow> flow_revision list \<Rightarrow> flow_revision list" where
  "latest_revisions flow revs =
     take 100 (order_by_revision_desc (filter (\<lambda>r. rev_flow r = flow) revs))"

text \<open>
  Lines 283-311 of \<open>Revisions.get\<close>, the request without a revision id: the response
  \<open>JsonResponse({"results": revisions})\<close> and the errors logged, or the exception that
  the request ends with.
\<close>

datatype 'j json_response = JsonResults "'j list"

definition revisions_get ::
  "('v::linorder, 'd, 'j) revision_models \<Rightarrow> string \<Rightarrow> nat \<Rightarrow> flow_revision list \<Rightarrow>
     py_error + 'j json_response \<times> log_entry list" where
  "revisions_get m uuid flow revs =
     (case list_revisions m uuid (latest_revisions flow revs) ([], []) of
        Inl e \<Rightarrow> Inl e
      | Inr (revisions, log) \<Rightarrow> Inr (JsonResults revisions, log))"

text \<open>
  The cases of the listing in the words of the specification, from the version of the
  revision and from the two methods of \<open>FlowRevision\<close>: a revision is trusted when its
  version is at or above the initial goflow version; it is listed when it is trusted or
  its migration to the final legacy version returns a definition that validates; it is
  reported when it is not trusted and the migration, or the validation of the migrated
  definition, raises something else than a ValueError.
\<close>

definition is_goflow :: "('v::linorder, 'd, 'j) revision_models \<Rightarrow> flow_revision \<Rightarrow> bool" where
  "is_goflow m r =
     (case (Version m (spec_version r), Version m (INITIAL_GOFLOW_VERSION m)) of
        (Some v, Some i) \<Rightarrow> v \<ge> i
      | _ \<Rightarrow> False)"

definition is_listed :: "('v::linorder, 'd, 'j) revision_models \<Rightarrow> flow_revision \<Rightarrow> bool" where
  "is_listed m r =
     (is_goflow m r \<or>
      (case get_migrated_definition m r (FINAL_LEGACY_VERSION m) of
         Inl _ \<Rightarrow> False
       | Inr d \<Rightarrow> validate_legacy_definition m d = Inr ()))"

definition reported :: "('v::linorder, 'd, 'j) revision_models \<Rightarrow> string \<Rightarrow> flow_revision \<Rightarrow> log_entry list" where
  "reported m uuid r =
     (if is_goflow m r then []
      else case get_migrated_definition m r (FINAL_LEGACY_VERSION m) of
             Inl (ValueError _) \<Rightarrow> []
           | Inl (OtherException e) \<Rightarrow> [LogError uuid (rev_id r) e]
           | Inr d \<Rightarrow>
               (case validate_legacy_definition m d of
                  Inl (OtherException e) \<Rightarrow> [LogError uuid (rev_id r) e]
                | _ \<Rightarrow> []))"

subsection \<open>Strings\<close>

text \<open>
  \<open>str.split(sep)\<close> for a separator of one character: the pieces between the
  separators, one more than there are separators, so that the empty string gives one
  empty piece.
\<close>

fun split_on :: "char \<Rightarrow> string \<Rightarrow> string list" where
  "split_on sep [] = [[]]"
| "split_on sep (c # cs) =
     (if c = sep then [] # split_on sep cs
      else case split_on sep cs of
             [] \<Rightarrow> [[c]]
           | piece # pieces \<Rightarrow> (c # piece) # pieces)"

text \<open>\<open>sep.join(pieces)\<close>.\<close>

fun join :: "string \<Rightarrow> string list \<Rightarrow> string" where
  "join sep [] = []"
| "join sep [piece] = piece"
| "join sep (piece # pieces) = piece @ sep @ join sep pieces"

definition is_digit :: "char \<Rightarrow> bool" where
  "is_digit c = (CHR ''0'' \<le> c \<and> c \<le> CHR ''9'')"

subsection \<open>An instance of the models of the revision listing\<close>

text \<open>
  For the examples, \<open>Version\<close> on the strings that are a release, numbers separated by
  dots: the list of the numbers without its trailing zeros, in the lexicographic order, as
  packaging compares two releases. The other versions of packaging, with an epoch or a
  pre-release, do not occur in the examples; a string that is not a release is taken to
  raise, as packaging does on a string that does not start with a number. The initial
  goflow version is 13.0.0 and the final legacy version 11.12. The migration of the
  example raises an exception for a target that is not 11.12 and a ValueError for the
  revision with id 3, and returns the id of any other revision as its definition; the
  validation raises a KeyError for the definition 4, a ValueError for the definition 9 and
  an exception for the definition 6. The JSON of a revision is its id.
\<close>

definition decimal :: "string \<Rightarrow> nat option" where
  "decimal s =
     (if s \<noteq> [] \<and> list_all is_digit s
      then Some (foldl (\<lambda>n c. 10 * n + (of_char c - 48)) 0 s)
      else None)"

definition strip_zeros :: "nat list \<Rightarrow> nat list" where
  "strip_zeros ns = rev (dropWhile (\<lambda>n. n = 0) (rev ns))"

definition release_Version :: "string \<Rightarrow> nat list option" where
  "release_Version s =
     (let parts = map decimal (split_on CHR ''.'' s) in
      if list_all (\<lambda>p. p \<noteq> None) parts then Some (strip_zeros (map the parts)) else None)"

definition example_models :: "(nat list, nat, nat) revision_models" where
  "example_models =
     \<lparr>Version = release_Version,
      INITIAL_GOFLOW_VERSION = ''13.0.0'',
      FINAL_LEGACY_VERSION = ''11.12'',
      get_migrated_definition =
        (\<lambda>r to_version.
           if to_version \<noteq> ''11.12'' then Inl (OtherException ''unknown target'')
           else if rev_id r = 3 then Inl (ValueError ''cannot migrate'')
           else Inr (rev_id r)),
      validate_legacy_definition =
        (\<lambda>d. if d = 4 then Inl (OtherException ''KeyError: base_language'')
             else if d = 9 then Inl (ValueError ''invalid ruleset'')
             else if d = 6 then Inl (OtherException ''not a legacy definition'')
             else Inr ()),
      as_json = rev_id\<rparr>"

text \<open>
  The revisions of the examples. Of the flow 7: a legacy revision that validates (id 1),
  one that does not migrate (id 3), one whose validation raises a KeyError (id 4) and one
  whose validation raises a ValueError (id 9), and two goflow revisions (ids 6 and 8), the
  first of which would not validate.
\<close>

definition example_revisions :: "flow_revision list" where
  "example_revisions =
     [\<lparr>rev_id = 1, rev_flow = 7, revision = 1, spec_version = ''11.12''\<rparr>,
      \<lparr>rev_id = 3, rev_flow = 7, revision = 2, spec_version = ''11.9''\<rparr>,
      \<lparr>rev_id = 4, rev_flow = 7, revision = 3, spec_version = ''11.10''\<rparr>,
      \<lparr>rev_id = 9, rev_flow = 7, revision = 4, spec_version = ''11.11''\<rparr>,
      \<lparr>rev_id = 5, rev_flow = 8, revision = 9, spec_version = ''13.0.0''\<rparr>,
      \<lparr>rev_id = 6, rev_flow = 7, revision = 5, spec_version = ''13.0''\<rparr>,
      \<lparr>rev_id = 8, rev_flow = 7, revision = 6, spec_version = ''13.1.0''\<rparr>]"

text \<open>A flow with 102 revisions, numbered from 1 to 102, all of them goflow revisions.\<close>

definition many_revisions :: "flow_revision list" where
  "many_revisions =
     map (\<lambda>n. \<lparr>rev_id = n, rev_flow = 7, revision = n, spec_version = ''13.0.0''\<rparr>) [1..<103]"

subsection \<open>Keyword triggers\<close>

text \<open>
  A row of \<open>Trigger\<close>, with the columns that the flow forms read and write. The flow and the
  keyword are nullable; \<open>trig_groups\<close> lists the contact groups of the trigger, and the filter
  \<open>groups=None\<close> keeps the triggers that have none. Of the trigger types only
  \<open>Trigger.TYPE_KEYWORD\<close> is told apart.
\<close>

datatype trigger_type = TYPE_KEYWORD | TYPE_OTHER

record trigger =
  trig_id :: nat
  trig_org :: nat
  trig_flow :: "nat option"
  keyword :: "string option"
  trigger_type :: trigger_type
  is_archived :: bool
  is_active :: bool
  trig_groups :: "nat list"

text \<open>
  The ValidationErrors that the forms of this file raise, each with the parameters of its
  message.
\<close>

datatype validation_error =
    KeywordWrongFormat "string list" nat
  | KeywordsUsed "string list"
  | AlreadyStarting
  | WorkspaceSuspended
  | WorkspaceFlagged
  | ContactQueryRequired
  | SearchError string
  | NoRecipients
  | FieldRequired
  | InvalidChoice string
  | InvalidPOFile
  | BaseLanguage string
  | UnsupportedLanguage string

text \<open>
  A Python \<open>str\<close> is modelled by the bytes of its UTF-8 encoding, so that \<open>len\<close> counts the
  bytes that start a code point. The operations on text that depend on the character
  tables of Unicode are parameters of the functions that use them: \<open>str.lower\<close>,
  \<open>str.strip\<close>, the test \<open>regex.match(r"^\w+$", s, flags=regex.UNICODE | regex.V0)\<close> and the
  comparison that the database makes for the lookup \<open>iexact\<close>, of a column value with the
  value looked up.
\<close>

record text_ops =
  str_lower :: "string \<Rightarrow> string"
  str_strip :: "string \<Rightarrow> string"
  match_single_word :: "string \<Rightarrow> bool"
  db_iexact :: "string \<Rightarrow> string \<Rightarrow> bool"

definition len :: "string \<Rightarrow> nat" where
  "len s = length (filter (\<lambda>c. \<not> (CHR 0x80 \<le> c \<and> c \<le> CHR 0xBF)) s)"

text \<open>The lookup \<open>keyword__iexact\<close>; a null keyword matches nothing.\<close>

definition iexact :: "text_ops \<Rightarrow> string option \<Rightarrow> string \<Rightarrow> bool" where
  "iexact ops column v = (case column of None \<Rightarrow> False | Some k \<Rightarrow> db_iexact ops k v)"

text \<open>
  The instance of the operations for the examples, which hold ASCII text only. On ASCII
  text \<open>str.lower\<close> changes the letters A to Z, \<open>str.strip\<close> removes the characters 9 to 13,
  28 to 32 at both ends, \<open>\w\<close> is a letter, a digit or the underscore, and the database
  compares the upper-cased values. On other text they are not the operations of Python.
\<close>

definition ascii_lower_char :: "char \<Rightarrow> char" where
  "ascii_lower_char c =
     (if CHR ''A'' \<le> c \<and> c \<le> CHR ''Z'' then char_of (of_char c + (32::nat)) else c)"

definition ascii_upper_char :: "char \<Rightarrow> char" where
  "ascii_upper_char c =
     (if CHR ''a'' \<le> c \<and> c \<le> CHR ''z'' then char_of (of_char c - (32::nat)) else c)"

definition ascii_space :: "char \<Rightarrow> bool" where
  "ascii_space c = (of_char c \<in> {9, 10, 11, 12, 13, 28, 29, 30, 31, 32 :: nat})"

definition ascii_word_char :: "char \<Rightarrow> bool" where
  "ascii_word_char c =
     ((CHR ''a'' \<le> c \<and> c \<le> CHR ''z'') \<or> (CHR ''A'' \<le> c \<and> c \<le> CHR ''Z'')
      \<or> is_digit c \<or> c = CHR ''_'')"

definition ascii_ops :: text_ops where
  "ascii_ops =
     \<lparr>str_lower = map ascii_lower_char,
      str_strip = (\<lambda>s. rev (dropWhile ascii_space (rev (dropWhile ascii_space s)))),
      match_single_word = (\<lambda>s. s \<noteq> [] \<and> list_all ascii_word_char s),
      db_iexact = (\<lambda>k v. map ascii_upper_char k = map ascii_upper_char v)\<rparr>"

text \<open>
  Lines 125-127: the triggers that make a keyword a duplicate. A ModelForm always has an
  instance, so the test of line 126 holds and the triggers of the instance's flow are
  excluded; the primary key is \<open>None\<close> for the unsaved flow of the create form, and
  \<open>exclude(flow=None)\<close> then leaves out the triggers without a flow.
\<close>

definition existing_triggers ::
  "text_ops \<Rightarrow> trigger list \<Rightarrow> nat \<Rightarrow> nat option \<Rightarrow> string \<Rightarrow> trigger list" where
  "existing_triggers ops triggers org instance_pk kw =
     filter (\<lambda>t. trig_flow t \<noteq> instance_pk)
       (filter (\<lambda>t. trig_org t = org \<and> iexact ops (keyword t) kw \<and> \<not> is_archived t
                    \<and> is_active t)
          triggers)"

text \<open>
  Lines 113-132, the loop over the submitted values, with the three lists built so far:
  duplicates, wrong_format and cleaned_keywords.
\<close>

fun clean_keywords ::
  "text_ops \<Rightarrow> nat \<Rightarrow> trigger list \<Rightarrow> nat \<Rightarrow> nat option \<Rightarrow> string list \<Rightarrow>
     string list \<times> string list \<times> string list \<Rightarrow> string list \<times> string list \<times> string list" where
  "clean_keywords ops KEYWORD_MAX_LEN triggers org instance_pk [] acc = acc"
| "clean_keywords ops KEYWORD_MAX_LEN triggers org instance_pk (v # vs)
       (duplicates, wrong_format, cleaned_keywords) =
     (let kw = str_strip ops (str_lower ops v) in
      if kw = [] then
        clean_keywords ops KEYWORD_MAX_LEN triggers org instance_pk vs
          (duplicates, wrong_format, cleaned_keywords)
      else
        let wrong_format' =
              (if \<not> match_single_word ops kw \<or> len kw > KEYWORD_MAX_LEN
               then wrong_format @ [kw] else wrong_format)
        in if existing_triggers ops triggers org instance_pk kw \<noteq> []
           then clean_keywords ops KEYWORD_MAX_LEN triggers org instance_pk vs
                  (duplicates @ [kw], wrong_format', cleaned_keywords)
           else clean_keywords ops KEYWORD_MAX_LEN triggers org instance_pk vs
                  (duplicates, wrong_format', cleaned_keywords @ [kw]))"

text \<open>
  \<open>BaseFlowForm.clean_keyword_triggers\<close>, lines 105-150: the cleaned keywords joined by
  commas, or the ValidationError. \<open>KEYWORD_MAX_LEN\<close> stands for \<open>Trigger.KEYWORD_MAX_LEN\<close>,
  \<open>org\<close> for the user's org, \<open>instance_pk\<close> for \<open>self.instance.pk\<close> and \<open>val\<close> for the list
  of the submitted values.
\<close>

definition clean_keyword_triggers ::
  "text_ops \<Rightarrow> nat \<Rightarrow> trigger list \<Rightarrow> nat \<Rightarrow> nat option \<Rightarrow> string list \<Rightarrow>
     validation_error + string" where
  "clean_keyword_triggers ops KEYWORD_MAX_LEN triggers org instance_pk val =
     (case clean_keywords ops KEYWORD_MAX_LEN triggers org instance_pk val ([], [], []) of
        (duplicates, wrong_format, cleaned_keywords) \<Rightarrow>
          if wrong_format \<noteq> [] then Inl (KeywordWrongFormat wrong_format KEYWORD_MAX_LEN)
          else if duplicates \<noteq> [] then Inl (KeywordsUsed duplicates)
          else Inr (join '','' cleaned_keywords))"

text \<open>A flow with the keyword trigger \<open>start\<close>, for the examples.\<close>

definition start_trigger :: trigger where
  "start_trigger =
     \<lparr>trig_id = 1, trig_org = 1, trig_flow = Some 7, keyword = Some ''start'',
      trigger_type = TYPE_KEYWORD, is_archived = False, is_active = True, trig_groups = []\<rparr>"

subsection \<open>Flow update: reconciling the keyword triggers\<close>

text \<open>The tasks handed to \<open>on_transaction_commit\<close>, each with the primary key it is given.\<close>

datatype task = update_run_expirations_task nat | export_flow_results_task nat

text \<open>What a step of the reconciliation does to the triggers of a keyword.\<close>

datatype trigger_op = Archived "string option" | Reactivated string | Created string

text \<open>
  Lines 706-711: the keywords of the flow's keyword triggers that are not archived and
  have no groups.
\<close>

definition existing_keywords :: "trigger list \<Rightarrow> nat \<Rightarrow> nat \<Rightarrow> string option set" where
  "existing_keywords triggers org obj =
     set (map keyword
       (filter (\<lambda>t. trig_flow t = Some obj \<and> trig_org t = org \<and> trigger_type t = TYPE_KEYWORD
                    \<and> \<not> is_archived t \<and> trig_groups t = []) triggers))"

text \<open>
  Lines 717-720: for each removed keyword, the update that archives the flow's triggers
  with that keyword which have no groups and are not archived. A filter on a keyword that
  is \<open>None\<close> selects the null keywords.
\<close>

fun archive_keywords :: "nat \<Rightarrow> nat \<Rightarrow> string option list \<Rightarrow> trigger list \<Rightarrow> trigger list" where
  "archive_keywords org obj [] triggers = triggers"
| "archive_keywords org obj (kw # kws) triggers =
     archive_keywords org obj kws
       (map (\<lambda>t. if trig_flow t = Some obj \<and> trig_org t = org \<and> keyword t = kw
                      \<and> trig_groups t = [] \<and> \<not> is_archived t
                   then t\<lparr>is_archived := True\<rparr> else t) triggers)"

text \<open>Lines 723-728: the keywords of the flow's archived keyword triggers without groups.\<close>

definition archived_keywords :: "trigger list \<Rightarrow> nat \<Rightarrow> nat \<Rightarrow> string option list" where
  "archived_keywords triggers org obj =
     map keyword
       (filter (\<lambda>t. trig_flow t = Some obj \<and> trig_org t = org \<and> trigger_type t = TYPE_KEYWORD
                    \<and> is_archived t \<and> trig_groups t = []) triggers)"

text \<open>
  Lines 736-743, \<open>Trigger.objects.create\<close>: a new row with the defaults of the model, not
  archived, active, without groups, under an id that no row has.
\<close>

definition create_trigger :: "trigger list \<Rightarrow> nat \<Rightarrow> string \<Rightarrow> nat \<Rightarrow> trigger" where
  "create_trigger triggers org kw obj =
     \<lparr>trig_id = Suc (fold max (map trig_id triggers) 0), trig_org = org, trig_flow = Some obj,
      keyword = Some kw, trigger_type = TYPE_KEYWORD, is_archived = False, is_active = True,
      trig_groups = []\<rparr>"

text \<open>
  Lines 731-743, the loop over the added keywords that are left, with the table and the
  steps taken so far: a keyword among the archived ones has the flow's triggers for it
  unarchived, any other gets a new trigger.
\<close>

fun add_keywords ::
  "nat \<Rightarrow> nat \<Rightarrow> string option list \<Rightarrow> string list \<Rightarrow> trigger list \<times> trigger_op list \<Rightarrow>
     trigger list \<times> trigger_op list" where
  "add_keywords org obj archived [] (triggers, ops) = (triggers, ops)"
| "add_keywords org obj archived (kw # kws) (triggers, ops) =
     (if Some kw \<in> set archived
      then add_keywords org obj archived kws
             (map (\<lambda>t. if trig_flow t = Some obj \<and> trig_org t = org \<and> keyword t = Some kw
                            \<and> trig_groups t = []
                         then t\<lparr>is_archived := False\<rparr> else t) triggers,
              ops @ [Reactivated kw])
      else add_keywords org obj archived kws
             (triggers @ [create_trigger triggers org kw obj], ops @ [Created kw]))"

text \<open>Lines 713-714: the set of the submitted keywords, from the cleaned field.\<close>

definition submitted_keywords :: "string \<Rightarrow> string set" where
  "submitted_keywords keyword_triggers =
     (if length keyword_triggers > 0 then set (split_on CHR '','' keyword_triggers) else {})"

text \<open>
  \<open>FlowCRUDL.Update.post_save\<close>, lines 699-750, for the user's org, the flow \<open>obj\<close> and the
  value of \<open>keyword_triggers\<close> in the cleaned data, \<open>None\<close> when the form has no such field:
  the table of triggers afterwards, the steps taken, and the task registered for the
  commit. Python iterates over the set of removed keywords in an order of its own; here it
  is the sorted one, and \<open>archive_keywords_any_order\<close> shows that the order is immaterial.
\<close>

definition post_save ::
  "nat \<Rightarrow> nat \<Rightarrow> string option \<Rightarrow> trigger list \<Rightarrow> trigger list \<times> trigger_op list \<times> task list" where
  "post_save org obj cleaned triggers =
     (case cleaned of
        None \<Rightarrow> (triggers, [], [update_run_expirations_task obj])
      | Some keyword_triggers \<Rightarrow>
          (let existing = existing_keywords triggers org obj;
               keywords = submitted_keywords keyword_triggers;
               removed_keywords = existing - Some ` keywords;
               triggers1 = archive_keywords org obj (sorted_list_of_set removed_keywords) triggers;
               added_keywords = Set.filter (\<lambda>kw. Some kw \<notin> existing) keywords;
               (triggers2, ops) =
                 add_keywords org obj (archived_keywords triggers1 org obj)
                   (sorted_list_of_set added_keywords)
                   (triggers1, map Archived (sorted_list_of_set removed_keywords))
           in (triggers2, ops, [update_run_expirations_task obj])))"

text \<open>A flow with the triggers \<open>start\<close> (active), \<open>join\<close> (archived) and \<open>stop\<close> (active).\<close>

definition example_triggers :: "trigger list" where
  "example_triggers =
     [start_trigger,
      \<lparr>trig_id = 2, trig_org = 1, trig_flow = Some 7, keyword = Some ''join'',
       trigger_type = TYPE_KEYWORD, is_archived = True, is_active = True, trig_groups = []\<rparr>,
      \<lparr>trig_id = 3, trig_org = 1, trig_flow = Some 7, keyword = Some ''stop'',
       trigger_type = TYPE_KEYWORD, is_archived = False, is_active = True, trig_groups = []\<rparr>,
      \<lparr>trig_id = 4, trig_org = 1, trig_flow = Some 8, keyword = Some ''other'',
       trigger_type = TYPE_KEYWORD, is_archived = False, is_active = True, trig_groups = []\<rparr>]"

subsection \<open>Broadcast: starting a flow\<close>

text \<open>
  What the broadcast form reads of its flow: the result of \<open>flow.is_starting()\<close>, which
  tells whether the flow has a start that is not finished, and the two flags of its org.
\<close>

record broadcast_flow =
  flow_pk :: nat
  is_starting :: bool
  is_suspended :: bool
  is_flagged :: bool

text \<open>
  The submitted data. The omnibox is the decoded JSON list of the selected groups and
  contacts; \<open>recipients_mode\<close> is \<open>None\<close> when the POST has no such key, and then
  \<open>self.data["recipients_mode"]\<close> raises a KeyError.
\<close>

datatype recipient = Group nat | Contact nat

record broadcast_data =
  omnibox :: "recipient list"
  restart_participants :: bool
  include_active :: bool
  recipients_mode :: "string option"
  contact_query :: string

text \<open>A call of \<open>flow.async_start\<close>, which creates the FlowStart and queues it.\<close>

record flow_start_call =
  start_flow :: nat
  start_user :: string
  start_groups :: "nat list"
  start_contacts :: "nat list"
  start_query :: "string option"
  start_restart_participants :: bool
  start_include_active :: bool

text \<open>
  \<open>omnibox_deserialize\<close> of temba.contacts.search.omnibox: the groups and the contacts of
  the selection.
\<close>

definition omnibox_deserialize :: "recipient list \<Rightarrow> nat list \<times> nat list" where
  "omnibox_deserialize items =
     (concat (map (\<lambda>i. case i of Group g \<Rightarrow> [g] | Contact c \<Rightarrow> []) items),
      concat (map (\<lambda>i. case i of Group g \<Rightarrow> [] | Contact c \<Rightarrow> [c]) items))"

text \<open>
  The result of cleaning a field: an exception that ends the request, a ValidationError
  that the form records, or the cleaned value.
\<close>

type_synonym 'a cleaned = "py_error + validation_error + 'a"

text \<open>
  \<open>clean_contact_query\<close>, lines 1906-1920. The CharField has stripped the value.
  \<open>parse_query\<close> stands for the function of temba.contacts.search with the flow's org:
  \<open>Inl\<close> the text of the SearchException, \<open>Inr\<close> the query as parsed.
\<close>

definition clean_contact_query ::
  "text_ops \<Rightarrow> (string \<Rightarrow> string + string) \<Rightarrow> broadcast_data \<Rightarrow> string cleaned" where
  "clean_contact_query ops parse_query d =
     (let query = str_strip ops (contact_query d) in
      case recipients_mode d of
        None \<Rightarrow> Inl (KeyError ''recipients_mode'')
      | Some mode \<Rightarrow>
          if mode = ''query'' then
            if str_strip ops query = [] then Inr (Inl ContactQueryRequired)
            else case parse_query query of
                   Inl e \<Rightarrow> Inr (Inl (SearchError e))
                 | Inr parsed \<Rightarrow> Inr (Inr parsed)
          else Inr (Inr query))"

text \<open>\<open>clean_omnibox\<close>, lines 1922-1929.\<close>

definition clean_omnibox :: "broadcast_data \<Rightarrow> (nat list \<times> nat list) cleaned" where
  "clean_omnibox d =
     (let starting = omnibox d in
      case recipients_mode d of
        None \<Rightarrow> Inl (KeyError ''recipients_mode'')
      | Some mode \<Rightarrow>
          if mode = ''select'' \<and> starting = [] then Inr (Inl NoRecipients)
          else Inr (Inr (omnibox_deserialize starting)))"

text \<open>The ChoiceField \<open>recipients_mode\<close>, lines 1890-1899: required, one of two choices.\<close>

definition clean_recipients_mode :: "broadcast_data \<Rightarrow> string cleaned" where
  "clean_recipients_mode d =
     (case recipients_mode d of
        None \<Rightarrow> Inr (Inl FieldRequired)
      | Some mode \<Rightarrow>
          if mode = [] then Inr (Inl FieldRequired)
          else if mode \<in> set [''select'', ''query''] then Inr (Inr mode)
          else Inr (Inl (InvalidChoice mode)))"

text \<open>\<open>BroadcastForm.clean\<close>, lines 1931-1958.\<close>

definition clean :: "broadcast_flow \<Rightarrow> validation_error + unit" where
  "clean flow =
     (if is_starting flow then Inl AlreadyStarting
      else if is_suspended flow then Inl WorkspaceSuspended
      else if is_flagged flow then Inl WorkspaceFlagged
      else Inr ())"

text \<open>
  The cleaned data of the form; a field that failed has no entry. The errors of the form,
  each under the name of its field, or under \<open>None\<close> when \<open>clean\<close> raised it.
\<close>

record cleaned_data =
  cleaned_omnibox :: "(nat list \<times> nat list) option"
  cleaned_restart_participants :: bool
  cleaned_include_active :: bool
  cleaned_recipients_mode :: "string option"
  cleaned_contact_query :: "string option"

type_synonym form_errors = "(string option \<times> validation_error) list"

definition field_errors :: "string \<Rightarrow> validation_error + 'a \<Rightarrow> form_errors" where
  "field_errors name r = (case r of Inl e \<Rightarrow> [(Some name, e)] | Inr _ \<Rightarrow> [])"

definition field_value :: "validation_error + 'a \<Rightarrow> 'a option" where
  "field_value r = (case r of Inl _ \<Rightarrow> None | Inr v \<Rightarrow> Some v)"

text \<open>
  \<open>full_clean\<close> of a Django form: every field is cleaned in the order of the form's fields,
  a ValidationError is recorded and the next field is cleaned, any other exception ends
  the request; then \<open>clean\<close> is called, whether or not a field has failed.
\<close>

definition full_clean ::
  "text_ops \<Rightarrow> (string \<Rightarrow> string + string) \<Rightarrow> broadcast_flow \<Rightarrow> broadcast_data \<Rightarrow>
     py_error + form_errors \<times> cleaned_data" where
  "full_clean ops parse_query flow d =
     (case clean_omnibox d of
        Inl e \<Rightarrow> Inl e
      | Inr omni \<Rightarrow>
          (case clean_recipients_mode d of
             Inl e \<Rightarrow> Inl e
           | Inr mode \<Rightarrow>
               (case clean_contact_query ops parse_query d of
                  Inl e \<Rightarrow> Inl e
                | Inr query \<Rightarrow>
                    Inr (field_errors ''omnibox'' omni @ field_errors ''recipients_mode'' mode
                           @ field_errors ''contact_query'' query
                           @ (case clean flow of Inl e \<Rightarrow> [(None, e)] | Inr _ \<Rightarrow> []),
                         \<lparr>cleaned_omnibox = field_value omni,
                          cleaned_restart_participants = restart_participants d,
                          cleaned_include_active = include_active d,
                          cleaned_recipients_mode = field_value mode,
                          cleaned_contact_query = field_value query\<rparr>))))"

text \<open>
  \<open>Broadcast.save\<close>, lines 2032-2065: the call of \<open>flow.async_start\<close> is added to the calls
  made. A key that the cleaned data lacks raises a KeyError. The call of \<open>analytics.track\<close>
  is left out.
\<close>

definition save ::
  "string \<Rightarrow> broadcast_flow \<Rightarrow> cleaned_data \<Rightarrow> flow_start_call list \<Rightarrow>
     py_error + flow_start_call list" where
  "save user flow cleaned starts =
     (case cleaned_recipients_mode cleaned of
        None \<Rightarrow> Inl (KeyError ''recipients_mode'')
      | Some mode \<Rightarrow>
          (case (if mode = ''query''
                 then (case cleaned_contact_query cleaned of
                         None \<Rightarrow> Inl (KeyError ''contact_query'')
                       | Some q \<Rightarrow> Inr ([], [], Some q))
                 else (case cleaned_omnibox cleaned of
                         None \<Rightarrow> Inl (KeyError ''omnibox'')
                       | Some (groups, contacts) \<Rightarrow> Inr (groups, contacts, None)))
           of Inl e \<Rightarrow> Inl e
            | Inr (groups, contacts, query) \<Rightarrow>
                Inr (starts @
                  [\<lparr>start_flow = flow_pk flow, start_user = user, start_groups = groups,
                    start_contacts = contacts, start_query = query,
                    start_restart_participants = cleaned_restart_participants cleaned,
                    start_include_active = cleaned_include_active cleaned\<rparr>])))"

text \<open>
  The POST of the broadcast view: the view saves when the form is valid and shows the
  form with its errors otherwise. The result is the response, or the exception that ends
  the request, and the calls of \<open>async_start\<close> made so far.
\<close>

datatype broadcast_response = FlowStarted | FormInvalid form_errors

definition broadcast_post ::
  "text_ops \<Rightarrow> (string \<Rightarrow> string + string) \<Rightarrow> string \<Rightarrow> broadcast_flow \<Rightarrow> broadcast_data \<Rightarrow>
     flow_start_call list \<Rightarrow> (py_error + broadcast_response) \<times> flow_start_call list" where
  "broadcast_post ops parse_query user flow d starts =
     (case full_clean ops parse_query flow d of
        Inl e \<Rightarrow> (Inl e, starts)
      | Inr (errors, cleaned) \<Rightarrow>
          if errors = [] then
            (case save user flow cleaned starts of
               Inl e \<Rightarrow> (Inl e, starts)
             | Inr starts' \<Rightarrow> (Inr FlowStarted, starts'))
          else (Inr (FormInvalid errors), starts))"

subsection \<open>Import of a translation: the upload form\<close>

text \<open>
  The \<open>POInfo\<close> that \<open>gettext.po_get_info\<close> returns for a catalog, with the language it
  declares; the code is \<open>None\<close> or empty when the catalog declares none. What the upload
  form reads of its flow: the base language and the codes of the languages of the org.
\<close>

record po_info =
  language_name :: string
  language_code :: "string option"

record translated_flow =
  base_language :: string
  org_languages :: "string list"

text \<open>
  \<open>UploadForm.clean_po_file\<close>, lines 1300-1321. \<open>po_get_info\<close> stands for reading, decoding
  and parsing the file, \<open>Inl\<close> when any of them raises.
\<close>

definition clean_po_file ::
  "('f \<Rightarrow> string + po_info) \<Rightarrow> translated_flow \<Rightarrow> 'f option \<Rightarrow> validation_error + 'f option" where
  "clean_po_file po_get_info flow data =
     (case data of
        None \<Rightarrow> Inr data
      | Some file \<Rightarrow>
          (case po_get_info file of
             Inl _ \<Rightarrow> Inl InvalidPOFile
           | Inr info \<Rightarrow>
               (case language_code info of
                  None \<Rightarrow> Inr data
                | Some code \<Rightarrow>
                    if code = [] then Inr data
                    else if code = base_language flow
                    then Inl (BaseLanguage (language_name info))
                    else if code \<notin> set (org_languages flow)
                    then Inl (UnsupportedLanguage (language_name info))
                    else Inr data)))"

text \<open>
  The POST of the upload step of \<open>ImportTranslation\<close>, lines 1351-1361, on the catalogs that
  \<open>gettext.po_save\<close> has stored so far: the file field is required; a valid form stores the
  catalog and redirects to the confirmation step with its place in the store, an invalid
  form is shown again and nothing is stored.
\<close>

datatype upload_response = RedirectToConfirm nat | UploadInvalid form_errors

definition import_translation_upload ::
  "('f \<Rightarrow> string + po_info) \<Rightarrow> translated_flow \<Rightarrow> 'f option \<Rightarrow> 'f list \<Rightarrow>
     upload_response \<times> 'f list" where
  "import_translation_upload po_get_info flow data stored =
     (case data of
        None \<Rightarrow> (UploadInvalid [(Some ''po_file'', FieldRequired)], stored)
      | Some file \<Rightarrow>
          (case clean_po_file po_get_info flow (Some file) of
             Inl e \<Rightarrow> (UploadInvalid [(Some ''po_file'', e)], stored)
           | Inr po_file \<Rightarrow>
               (case po_file of
                  None \<Rightarrow> (UploadInvalid [(Some ''po_file'', FieldRequired)], stored)
                | Some f \<Rightarrow> (RedirectToConfirm (length stored), stored @ [f]))))"

subsection \<open>Export of results\<close>

text \<open>
  A row of \<open>ExportFlowResultsTask\<close> with what \<open>create\<close> is given, and what the view changes:
  the table of the export tasks, the calls registered for the commit of the transaction,
  the queue of the workers, and the messages shown to the user.
\<close>

record export_task =
  export_id :: nat
  export_org :: nat
  export_created_by :: string
  export_flows :: "nat list"
  export_contact_fields :: "nat list"
  export_include_msgs :: bool
  export_responded_only :: bool
  export_extra_urns :: "string list"
  export_group_memberships :: "nat list"

datatype user_message =
    ExportInProgress string
  | PreparingExport string
  | ExportComplete nat

record export_state =
  export_tasks :: "export_task list"
  on_commit :: "task list"
  queue :: "task list"
  messages :: "user_message list"

text \<open>The cleaned data of the export form.\<close>

record export_form =
  form_flows :: "nat list"
  form_contact_fields :: "nat list"
  form_include_msgs :: bool
  form_responded_only :: bool
  form_extra_urns :: "string list"
  form_group_memberships :: "nat list"

text \<open>
  Modelled from the spec: \<open>on_transaction_commit\<close> of temba.utils is not under src/. The
  enqueue call is made only after the persisting transaction commits: the call is kept
  until then, and the commit hands the calls kept to the queue.
\<close>

definition on_transaction_commit :: "task \<Rightarrow> export_state \<Rightarrow> export_state" where
  "on_transaction_commit t st = st\<lparr>on_commit := on_commit st @ [t]\<rparr>"

definition transaction_commit :: "export_state \<Rightarrow> export_state" where
  "transaction_commit st = st\<lparr>queue := queue st @ on_commit st, on_commit := []\<rparr>"

text \<open>
  Modelled from the spec: \<open>ExportFlowResultsTask.create\<close> of temba.flows.models is not
  under src/. It persists one request record, under an id that no row has.
\<close>

definition create_export ::
  "nat \<Rightarrow> string \<Rightarrow> export_form \<Rightarrow> export_task list \<Rightarrow> export_task" where
  "create_export org user form tasks =
     \<lparr>export_id = Suc (fold max (map export_id tasks) 0), export_org = org,
      export_created_by = user, export_flows = form_flows form,
      export_contact_fields = form_contact_fields form,
      export_include_msgs = form_include_msgs form,
      export_responded_only = form_responded_only form,
      export_extra_urns = form_extra_urns form,
      export_group_memberships = form_group_memberships form\<rparr>"

text \<open>
  \<open>ExportResults.form_valid\<close>, lines 1502-1558. \<open>get_recent_unfinished\<close> stands for the
  class method of the export task, on the table and the org; \<open>eager\<close> for the setting
  \<open>CELERY_ALWAYS_EAGER\<close> and \<open>pjax\<close> for the presence of the header \<open>HTTP_X_PJAX\<close>.
  The call of \<open>analytics.track\<close> is left out.
\<close>

datatype export_response = RedirectToList | RenderedModal

definition export_form_valid ::
  "(export_task list \<Rightarrow> nat \<Rightarrow> export_task option) \<Rightarrow> bool \<Rightarrow> bool \<Rightarrow> nat \<Rightarrow> string \<Rightarrow>
     export_form \<Rightarrow> export_state \<Rightarrow> export_response \<times> export_state" where
  "export_form_valid get_recent_unfinished eager pjax org user form st =
     (let st' =
        (case get_recent_unfinished (export_tasks st) org of
           Some existing \<Rightarrow>
             st\<lparr>messages := messages st @ [ExportInProgress (export_created_by existing)]\<rparr>
         | None \<Rightarrow>
             (let export = create_export org user form (export_tasks st);
                  st1 = st\<lparr>export_tasks := export_tasks st @ [export]\<rparr>;
                  st2 = on_transaction_commit (export_flow_results_task (export_id export)) st1
              in if \<not> eager
                 then st2\<lparr>messages := messages st2 @ [PreparingExport user]\<rparr>
                 else st2\<lparr>messages := messages st2 @ [ExportComplete (export_id export)]\<rparr>))
      in (if \<not> pjax then RedirectToList else RenderedModal, st'))"

subsection \<open>Revisions: saving\<close>

text \<open>
  The flow as the save of a revision sees it: its revisions, the user who saved last, the
  number of its current revision and the spec version it is at. The definition that the
  editor posts carries the spec version and the revision number it was loaded at.
\<close>

record 'v flow_doc =
  doc_revisions :: "(nat \<times> string) list"
  doc_saved_by :: string
  doc_revision :: nat
  doc_spec_version :: 'v

record 'v flow_definition =
  def_spec_version :: 'v
  def_revision :: nat
  def_body :: string

text \<open>The exceptions of \<open>save_revision\<close> that \<open>Revisions.post\<close> handles by name.\<close>

datatype save_exn =
    FlowValidationException string
  | FlowVersionConflictException
  | FlowUserConflictException string

text \<open>
  Modelled from the spec: \<open>Flow.save_revision\<close> of temba.flows.models is not under src/.
  A save compares against a concurrency marker. If the spec version has moved forward
  since the client loaded the definition, it is rejected with a version conflict; if the
  client's revision is behind and the last known editor differs from the requester, it is
  rejected with a user conflict that names the other editor; a definition that the engine
  does not validate is rejected. A rejection mutates nothing. A successful save creates
  the next revision and records the requester as the last editor. \<open>validate\<close> stands for
  the engine, \<open>Some\<close> the reason when it rejects the definition.
\<close>

definition save_revision ::
  "(string \<Rightarrow> string option) \<Rightarrow> 'v::linorder flow_doc \<Rightarrow> string \<Rightarrow> 'v flow_definition \<Rightarrow>
     'v flow_doc \<times> (save_exn + nat \<times> string)" where
  "save_revision validate flow user d =
     (if def_spec_version d < doc_spec_version flow
      then (flow, Inl FlowVersionConflictException)
      else if def_revision d < doc_revision flow \<and> doc_saved_by flow \<noteq> user
      then (flow, Inl (FlowUserConflictException (doc_saved_by flow)))
      else case validate (def_body d) of
             Some reason \<Rightarrow> (flow, Inl (FlowValidationException reason))
           | None \<Rightarrow>
               (let new_revision = (Suc (doc_revision flow), def_body d) in
                (flow\<lparr>doc_revisions := doc_revisions flow @ [new_revision],
                      doc_saved_by := user,
                      doc_revision := Suc (doc_revision flow),
                      doc_spec_version := def_spec_version d\<rparr>,
                 Inr new_revision)))"

text \<open>
  The JSON response of \<open>Revisions.post\<close>: the HTTP status, and the entries \<open>status\<close>,
  \<open>description\<close>, \<open>detail\<close> and \<open>revision\<close> of the body, \<open>None\<close> for an entry that the body
  lacks or that is null.
\<close>

record save_response =
  http_status :: nat
  body_status :: string
  body_description :: "string option"
  body_detail :: "string option"
  body_revision :: "(nat \<times> string) option"

text \<open>
  \<open>Revisions.post\<close>, lines 313-358, for a flow that \<open>get_object\<close> finds. \<open>body\<close> is the
  result of \<open>json.loads\<close> on the body of the request, whose exception ends the request.
  The handler of line 351, for the exceptions that \<open>save_revision\<close> does not name, is not
  modelled.
\<close>

definition revisions_post ::
  "(string \<Rightarrow> string option) \<Rightarrow> bool \<Rightarrow> 'v::linorder flow_doc \<Rightarrow> string \<Rightarrow>
     py_error + 'v flow_definition \<Rightarrow> 'v flow_doc \<times> (py_error + save_response)" where
  "revisions_post validate has_org_perm flow user body =
     (if \<not> has_org_perm then
        (flow, Inr \<lparr>http_status = 403, body_status = ''failure'',
                    body_description = Some ''You don't have permission to edit this flow'',
                    body_detail = None, body_revision = None\<rparr>)
      else case body of
        Inl e \<Rightarrow> (flow, Inl e)
      | Inr d \<Rightarrow>
          (case save_revision validate flow user d of
             (flow', Inr new_revision) \<Rightarrow>
               (flow', Inr \<lparr>http_status = 200, body_status = ''success'',
                            body_description = None, body_detail = None,
                            body_revision = Some new_revision\<rparr>)
           | (flow', Inl e) \<Rightarrow>
               (flow',
                Inr \<lparr>http_status = 400, body_status = ''failure'',
                     body_description =
                       Some (case e of
                          FlowValidationException _ \<Rightarrow>
                            ''Your flow failed validation. Please refresh your browser.''
                        | FlowVersionConflictException \<Rightarrow>
                            ''Your flow has been upgraded to the latest version. ''
                            @ ''In order to continue editing, please refresh your browser.''
                        | FlowUserConflictException other_user \<Rightarrow>
                            other_user @ '' is currently editing this Flow. ''
                            @ ''Your changes will not be saved until you refresh your browser.''),
                     body_detail =
                       (case e of FlowValidationException detail \<Rightarrow> Some detail | _ \<Rightarrow> None),
                     body_revision = None\<rparr>)))"

section \<open>Properties\<close>

subsection \<open>C2: threshold table of the histogram\<close>

text \<open>
  C2. For every date range \<open>end_date - start_date\<close> of an activity chart that shows a
  histogram, the bucket is hourly when the range is strictly less than 21 days
  (1814400000000 microseconds), daily when it is at least 21 days and strictly less than
  500 days (43200000000000 microseconds), and weekly when it is at least 500 days.
\<close>

theorem histogram_bucket_thresholds:
  assumes "total_responses > 0"
  shows "\<exists>b min_date.
           histogram_context total_responses (Some start_date) (Some end_date) =
             Inr (Some (b, min_date))
           \<and> (b = Hour \<longleftrightarrow> end_date - start_date < 1814400000000)
           \<and> (b = Day \<longleftrightarrow> 1814400000000 \<le> end_date - start_date
                          \<and> end_date - start_date < 43200000000000)
           \<and> (b = Week \<longleftrightarrow> 43200000000000 \<le> end_date - start_date)"
  using assms
  by (simp add: histogram_context_def histogram_bucket_def HISTOGRAM_MIN_def timedelta_days_def
      Let_def)

theorem histogram_bucket_thresholds_witness:
  "(0::int) < 5
   \<and> histogram_context 5 (Some 0) (Some 1814399999999) = Inr (Some (Hour, - 3600000000))
   \<and> histogram_context 5 (Some 0) (Some 1814400000000) = Inr (Some (Day, - 6825600000000))
   \<and> histogram_context 5 (Some 0) (Some 43199999999999) = Inr (Some (Day, 34559999999999))
   \<and> histogram_context 5 (Some 0) (Some 43200000000000) = Inr (Some (Week, 0))"
  using histogram_bucket_thresholds [of 5 0 1814399999999]
    histogram_bucket_thresholds [of 5 0 1814400000000]
    histogram_bucket_thresholds [of 5 0 43199999999999]
    histogram_bucket_thresholds [of 5 0 43200000000000]
  by (simp add: histogram_context_def histogram_bucket_def HISTOGRAM_MIN_def timedelta_days_def
      timedelta_hours_def Let_def)

subsection \<open>C9: the total run count is the sum of the counts by exit type\<close>

lemma EXIT_TYPES_total: "EXIT_TYPES e = Some (state_name e)"
proof (cases e)
  case None
  then show ?thesis by (simp add: EXIT_TYPES_def state_name_def)
next
  case (Some a)
  then show ?thesis by (cases a) (simp_all add: EXIT_TYPES_def state_name_def)
qed

lemma state_name_inj: "state_name e = state_name e' \<longleftrightarrow> e = e'"
  by (simp add: state_name_def split: option.splits exit_type.splits)

lemma UNIV_exit_type_option:
  "(UNIV :: exit_type option set) =
     {None, Some EXIT_TYPE_COMPLETED, Some EXIT_TYPE_INTERRUPTED, Some EXIT_TYPE_EXPIRED}"
proof -
  have "e \<in> {None, Some EXIT_TYPE_COMPLETED, Some EXIT_TYPE_INTERRUPTED, Some EXIT_TYPE_EXPIRED}"
    for e :: "exit_type option"
  proof (cases e)
    case None
    then show ?thesis by simp
  next
    case (Some a)
    then show ?thesis by (cases a) simp_all
  qed
  then show ?thesis by blast
qed

lemma tally_counts_groups:
  "tally_counts (map (\<lambda>e. (e, g e)) es) (ctx, t) =
     Inr (\<lambda>k. if \<exists>e \<in> set es. state_name e = k then Some (g (THE e. state_name e = k)) else ctx k,
          t + sum_list (map g es))"
proof (induction es arbitrary: ctx t)
  case Nil
  show ?case by simp
next
  case (Cons e es)
  have the_e: "(THE x. state_name x = state_name y) = y" for y
    by (rule the_equality) (simp_all add: state_name_inj)
  show ?case
    apply (simp add: EXIT_TYPES_total Cons.IH)
    apply (rule ext)
    apply (auto simp: the_e state_name_inj)
    done
qed

lemma sum_list_groups:
  "sum_list (map (stored_count rows flow) (remdups (map frc_exit_type (filter (\<lambda>r. frc_flow r = flow) rows))))
     = stored_count rows flow None + stored_count rows flow (Some EXIT_TYPE_COMPLETED)
       + stored_count rows flow (Some EXIT_TYPE_INTERRUPTED) + stored_count rows flow (Some EXIT_TYPE_EXPIRED)"
proof -
  let ?S = "set (map frc_exit_type (filter (\<lambda>r. frc_flow r = flow) rows))"
  have absent: "stored_count rows flow e = 0" if "e \<notin> ?S" for e
  proof -
    have "filter (\<lambda>r. frc_flow r = flow \<and> frc_exit_type r = e) rows = []"
      using that by (auto simp: filter_empty_conv)
    then show ?thesis by (simp add: stored_count_def)
  qed
  have "sum_list (map (stored_count rows flow) (remdups (map frc_exit_type (filter (\<lambda>r. frc_flow r = flow) rows))))
          = sum (stored_count rows flow) ?S"
    by (simp only: sum_code)
  also have "\<dots> = sum (stored_count rows flow) UNIV"
  proof (rule sum.mono_neutral_left)
    show "finite (UNIV :: exit_type option set)" by (simp add: UNIV_exit_type_option)
  qed (auto simp: absent)
  also have "\<dots> = stored_count rows flow None + stored_count rows flow (Some EXIT_TYPE_COMPLETED)
       + stored_count rows flow (Some EXIT_TYPE_INTERRUPTED) + stored_count rows flow (Some EXIT_TYPE_EXPIRED)"
    by (simp add: UNIV_exit_type_option)
  finally show ?thesis .
qed

lemma exit_type_sums_stored:
  "exit_type_sums rows flow =
     map (\<lambda>e. (e, stored_count rows flow e))
       (remdups (map frc_exit_type (filter (\<lambda>r. frc_flow r = flow) rows)))"
  by (simp add: exit_type_sums_def stored_count_def Let_def conj_commute)

lemma default_states_at:
  "default_states states ctx k = (if k \<in> set states \<and> ctx k = None then Some 0 else ctx k)"
  by (induction states arbitrary: ctx) auto

text \<open>
  C9. For every flow, when the context holds no entry named after a state before the
  counts are read, the chart reports under \<open>active\<close>, \<open>completed\<close>, \<open>interrupted\<close> and
  \<open>expired\<close> the tally stored for the flow and that exit type, under \<open>total_runs\<close> the
  sum of these four numbers, and zero for every exit type of which the flow has no row.
\<close>

theorem total_runs_is_sum_of_exit_type_counts:
  assumes "\<forall>state \<in> set [''expired'', ''interrupted'', ''completed'', ''active'']. ctx state = None"
  shows "\<exists>c. run_counts_context rows flow total_responses ctx = Inr c
           \<and> c ''active'' = Some (stored_count rows flow None)
           \<and> c ''completed'' = Some (stored_count rows flow (Some EXIT_TYPE_COMPLETED))
           \<and> c ''interrupted'' = Some (stored_count rows flow (Some EXIT_TYPE_INTERRUPTED))
           \<and> c ''expired'' = Some (stored_count rows flow (Some EXIT_TYPE_EXPIRED))
           \<and> c ''total_runs'' =
                 Some (stored_count rows flow None
                       + stored_count rows flow (Some EXIT_TYPE_COMPLETED)
                       + stored_count rows flow (Some EXIT_TYPE_INTERRUPTED)
                       + stored_count rows flow (Some EXIT_TYPE_EXPIRED))
           \<and> (\<forall>e. (\<forall>r \<in> set rows. frc_flow r = flow \<longrightarrow> frc_exit_type r \<noteq> e)
                  \<longrightarrow> c (state_name e) = Some 0)"
proof -
  let ?es = "remdups (map frc_exit_type (filter (\<lambda>r. frc_flow r = flow) rows))"
  let ?g = "stored_count rows flow"
  let ?c1 = "\<lambda>k. if \<exists>e \<in> set ?es. state_name e = k then Some (?g (THE e. state_name e = k)) else ctx k"
  have tally: "tally_counts (exit_type_sums rows flow) (ctx, 0) = Inr (?c1, sum_list (map ?g ?es))"
    by (simp only: exit_type_sums_stored tally_counts_groups) simp
  have the_e: "(THE x. state_name x = state_name y) = y" for y
    by (rule the_equality) (simp_all add: state_name_inj)
  have absent: "?g e = 0" if "e \<notin> set ?es" for e
  proof -
    have "filter (\<lambda>r. frc_flow r = flow \<and> frc_exit_type r = e) rows = []"
      using that by (auto simp: filter_empty_conv)
    then show ?thesis by (simp add: stored_count_def)
  qed
  have c1: "?c1 (state_name e) = (if e \<in> set ?es then Some (?g e) else None)"
    if "ctx (state_name e) = None" for e
    using that by (auto simp: the_e state_name_inj)
  have names: "state_name None = ''active''" "state_name (Some EXIT_TYPE_COMPLETED) = ''completed''"
    "state_name (Some EXIT_TYPE_INTERRUPTED) = ''interrupted''"
    "state_name (Some EXIT_TYPE_EXPIRED) = ''expired''"
    by (simp_all add: state_name_def)
  have ctx_none: "ctx (state_name e) = None" for e
    using assms by (cases e; simp add: state_name_def split: exit_type.splits)
  have val: "(default_states [''expired'', ''interrupted'', ''completed'', ''active''] ?c1) (state_name e)
               = Some (?g e)" for e
  proof -
    have "state_name e \<in> set [''expired'', ''interrupted'', ''completed'', ''active'']"
      by (cases e; simp add: state_name_def split: exit_type.splits)
    then show ?thesis
      by (simp only: default_states_at c1 [OF ctx_none]) (simp add: absent)
  qed
  have total: "sum_list (map ?g ?es) = ?g None + ?g (Some EXIT_TYPE_COMPLETED)
       + ?g (Some EXIT_TYPE_INTERRUPTED) + ?g (Some EXIT_TYPE_EXPIRED)"
    by (rule sum_list_groups)
  have zero: "?g e = 0" if "\<forall>r \<in> set rows. frc_flow r = flow \<longrightarrow> frc_exit_type r \<noteq> e" for e
    using that by (intro absent) auto
  have not_totals: "state_name e \<noteq> ''total_runs''" "state_name e \<noteq> ''total_responses''" for e
    by (cases e; simp add: state_name_def split: exit_type.splits)+
  let ?c = "(default_states [''expired'', ''interrupted'', ''completed'', ''active''] ?c1)
              (''total_runs'' \<mapsto> sum_list (map ?g ?es), ''total_responses'' \<mapsto> total_responses)"
  have run: "run_counts_context rows flow total_responses ctx = Inr ?c"
    by (simp add: run_counts_context_def tally)
  have at: "?c (state_name e) = Some (?g e)" for e
    using val [of e] not_totals [of e] by simp
  have "?c ''active'' = Some (?g None)"
    "?c ''completed'' = Some (?g (Some EXIT_TYPE_COMPLETED))"
    "?c ''interrupted'' = Some (?g (Some EXIT_TYPE_INTERRUPTED))"
    "?c ''expired'' = Some (?g (Some EXIT_TYPE_EXPIRED))"
    using at [of None] at [of "Some EXIT_TYPE_COMPLETED"] at [of "Some EXIT_TYPE_INTERRUPTED"]
      at [of "Some EXIT_TYPE_EXPIRED"]
    by (simp_all only: names)
  moreover have "?c ''total_runs'' = Some (?g None + ?g (Some EXIT_TYPE_COMPLETED)
       + ?g (Some EXIT_TYPE_INTERRUPTED) + ?g (Some EXIT_TYPE_EXPIRED))"
    by (simp add: total)
  moreover have "\<forall>e. (\<forall>r \<in> set rows. frc_flow r = flow \<longrightarrow> frc_exit_type r \<noteq> e)
                  \<longrightarrow> ?c (state_name e) = Some 0"
    using at zero by simp
  ultimately show ?thesis
    using run by blast
qed


theorem total_runs_is_sum_of_exit_type_counts_witness:
  "(Map.empty :: template_context) ''expired'' = None
   \<and> (Map.empty :: template_context) ''interrupted'' = None
   \<and> (Map.empty :: template_context) ''completed'' = None
   \<and> (Map.empty :: template_context) ''active'' = None
   \<and> (\<exists>c. run_counts_context
            [\<lparr>frc_flow = 1, frc_exit_type = None, frc_count = 3\<rparr>,
             \<lparr>frc_flow = 1, frc_exit_type = Some EXIT_TYPE_EXPIRED, frc_count = 4\<rparr>,
             \<lparr>frc_flow = 1, frc_exit_type = None, frc_count = - 1\<rparr>,
             \<lparr>frc_flow = 2, frc_exit_type = Some EXIT_TYPE_COMPLETED, frc_count = 10\<rparr>]
            1 0 Map.empty = Inr c
          \<and> c ''active'' = Some 2 \<and> c ''completed'' = Some 0 \<and> c ''interrupted'' = Some 0
          \<and> c ''expired'' = Some 4 \<and> c ''total_runs'' = Some 6)"
  using total_runs_is_sum_of_exit_type_counts
    [of Map.empty
      "[\<lparr>frc_flow = 1, frc_exit_type = None, frc_count = 3\<rparr>,
        \<lparr>frc_flow = 1, frc_exit_type = Some EXIT_TYPE_EXPIRED, frc_count = 4\<rparr>,
        \<lparr>frc_flow = 1, frc_exit_type = None, frc_count = - 1\<rparr>,
        \<lparr>frc_flow = 2, frc_exit_type = Some EXIT_TYPE_COMPLETED, frc_count = 10\<rparr>]" 1 0]
  by (simp add: stored_count_def) blast

subsection \<open>The loop of the revision listing\<close>

lemma list_revisions_result:
  assumes "Version m (INITIAL_GOFLOW_VERSION m) \<noteq> None"
    and "\<forall>r \<in> set rs. Version m (spec_version r) \<noteq> None"
  shows "list_revisions m uuid rs (revisions, log) =
           Inr (revisions @ map (as_json m) (filter (is_listed m) rs),
                log @ concat (map (reported m uuid) rs))"
  using assms
proof (induction rs arbitrary: revisions log)
  case Nil
  show ?case by simp
next
  case (Cons r rs)
  from Cons.prems obtain v i where v: "Version m (spec_version r) = Some v"
    and i: "Version m (INITIAL_GOFLOW_VERSION m) = Some i"
    by auto
  have rest: "\<forall>r \<in> set rs. Version m (spec_version r) \<noteq> None"
    using Cons.prems by simp
  note IH = Cons.IH [OF Cons.prems(1) rest]
  show ?case
  proof (cases "v \<ge> i")
    case True
    then show ?thesis
      by (simp add: v i IH is_listed_def is_goflow_def reported_def)
  next
    case False
    then show ?thesis
      by (cases "get_migrated_definition m r (FINAL_LEGACY_VERSION m)")
         (auto simp: v i IH is_listed_def is_goflow_def reported_def validate_legacy_def
            split: exn.splits sum.splits)
  qed
qed

lemma list_revisions_parsed:
  assumes "list_revisions m uuid rs (revisions, log) = Inr out"
  shows "\<forall>r \<in> set rs. Version m (spec_version r) \<noteq> None"
  using assms
proof (induction rs arbitrary: revisions log)
  case Nil
  show ?case by simp
next
  case (Cons r rs)
  from Cons.prems obtain v where v: "Version m (spec_version r) = Some v"
    by (cases "Version m (spec_version r)") auto
  from Cons.prems v obtain i where i: "Version m (INITIAL_GOFLOW_VERSION m) = Some i"
    by (cases "Version m (INITIAL_GOFLOW_VERSION m)") auto
  from Cons.prems obtain revisions' log' where "list_revisions m uuid rs (revisions', log') = Inr out"
    by (auto simp: v i split: if_splits sum.splits exn.splits)
  then have "\<forall>r \<in> set rs. Version m (spec_version r) \<noteq> None"
    by (rule Cons.IH)
  then show ?case by (simp add: v)
qed

lemma list_revisions_initial_parsed:
  assumes "list_revisions m uuid (r # rs) (revisions, log) = Inr out"
  shows "Version m (INITIAL_GOFLOW_VERSION m) \<noteq> None"
  using assms by (auto split: option.splits)

lemma count_before_sorted:
  assumes "x \<in> set (take n (sort_key f xs))"
  shows "length (filter (\<lambda>y. f y < f x) xs) < n"
proof -
  let ?ys = "sort_key f xs"
  from assms obtain i where i: "i < n" "i < length ?ys" "?ys ! i = x"
    by (auto simp: in_set_conv_nth)
  have sorted: "sorted (map f ?ys)" by simp
  have later: "\<not> f y < f x" if "y \<in> set (drop i ?ys)" for y
  proof -
    from that obtain j where j: "j < length ?ys - i" "drop i ?ys ! j = y"
      by (auto simp: in_set_conv_nth)
    then have "y = ?ys ! (i + j)" by simp
    moreover have "f (?ys ! i) \<le> f (?ys ! (i + j))"
      using sorted j(1) i(2) by (simp add: sorted_iff_nth_mono)
    ultimately show ?thesis using i(3) by simp
  qed
  have "length (filter (\<lambda>y. f y < f x) xs) = length (filter (\<lambda>y. f y < f x) ?ys)"
    by (simp add: filter_sort)
  also have "\<dots> = length (filter (\<lambda>y. f y < f x) (take i ?ys @ drop i ?ys))"
    by simp
  also have "\<dots> = length (filter (\<lambda>y. f y < f x) (take i ?ys))"
    using later by (simp only: filter_append) (simp add: filter_empty_conv)
  also have "\<dots> \<le> i"
    by (rule le_trans [OF length_filter_le]) simp
  finally show ?thesis using i(1) by simp
qed

lemma latest_revisions_length: "length (latest_revisions flow revs) \<le> 100"
  by (simp add: latest_revisions_def)

lemma latest_revisions_subset:
  "set (latest_revisions flow revs) \<subseteq> {r \<in> set revs. rev_flow r = flow}"
proof -
  have "set (latest_revisions flow revs)
          \<subseteq> set (order_by_revision_desc (filter (\<lambda>r. rev_flow r = flow) revs))"
    unfolding latest_revisions_def by (rule set_take_subset)
  then show ?thesis by (auto simp: order_by_revision_desc_def)
qed

lemma latest_revisions_descending:
  "sorted_wrt (\<lambda>a b. revision a \<ge> revision b) (latest_revisions flow revs)"
proof -
  let ?xs = "order_by_revision_desc (filter (\<lambda>r. rev_flow r = flow) revs)"
  have "sorted (map (\<lambda>r. - int (revision r)) ?xs)"
    by (simp add: order_by_revision_desc_def)
  then have "sorted_wrt (\<lambda>a b. revision a \<ge> revision b) ?xs"
    by (simp add: sorted_map)
  then show ?thesis
    unfolding latest_revisions_def by (rule sorted_wrt_take)
qed

lemma latest_revisions_newer:
  assumes "r \<in> set (latest_revisions flow revs)"
  shows "length (filter (\<lambda>r'. rev_flow r' = flow \<and> revision r < revision r') revs) < 100"
proof -
  let ?f = "\<lambda>r. - int (revision r)"
  let ?of_flow = "filter (\<lambda>r. rev_flow r = flow) revs"
  have "length (filter (\<lambda>y. ?f y < ?f r) ?of_flow) < 100"
    using assms unfolding latest_revisions_def order_by_revision_desc_def
    by (rule count_before_sorted)
  moreover have "filter (\<lambda>y. ?f y < ?f r) ?of_flow
                   = filter (\<lambda>r'. rev_flow r' = flow \<and> revision r < revision r') revs"
    by (simp add: conj_commute)
  ultimately show ?thesis by simp
qed

subsection \<open>C7: what the revision listing includes, culls and reports\<close>

text \<open>
  C7, as stated, fails: the listing calls \<open>Version\<close> on the spec version of a revision
  before the \<open>try\<close>, and a spec version that is no version makes the request raise
  InvalidVersion to the caller instead of returning a list.
\<close>

theorem malformed_spec_version_counterexample:
  "revisions_get example_models ''f1'' 7
     [\<lparr>rev_id = 1, rev_flow = 7, revision = 1, spec_version = ''11.12''\<rparr>,
      \<lparr>rev_id = 2, rev_flow = 7, revision = 2, spec_version = ''unknown''\<rparr>]
   = Inl (InvalidVersion ''unknown'')"
  by code_simp

text \<open>
  C7, amended. When the version constant and the spec versions of the revisions that the
  listing considers are versions, the request returns the JSON list and does not raise.
  The list holds, in the order considered, the revisions that are at or above the initial
  goflow version, whatever their validation would say, and the legacy revisions for which
  \<open>get_migrated_definition\<close> to the final legacy version returns a definition that
  \<open>validate_legacy_definition\<close> accepts. A legacy revision for which either of the two
  raises a ValueError is left out and nothing is logged for it; one for which either
  raises another exception is left out and logged with the flow's uuid, its id and the
  text of the exception.
\<close>

theorem revision_listing_validates_legacy:
  assumes "Version m (INITIAL_GOFLOW_VERSION m) \<noteq> None"
    and "\<forall>r \<in> set (latest_revisions flow revs). Version m (spec_version r) \<noteq> None"
  shows "revisions_get m uuid flow revs =
           Inr (JsonResults
                  (map (as_json m)
                     (filter
                        (\<lambda>r. is_goflow m r \<or>
                           (case get_migrated_definition m r (FINAL_LEGACY_VERSION m) of
                              Inl _ \<Rightarrow> False
                            | Inr d \<Rightarrow> validate_legacy_definition m d = Inr ()))
                        (latest_revisions flow revs))),
                concat
                  (map (\<lambda>r. if is_goflow m r then []
                          else case get_migrated_definition m r (FINAL_LEGACY_VERSION m) of
                                 Inl (ValueError _) \<Rightarrow> []
                               | Inl (OtherException e) \<Rightarrow> [LogError uuid (rev_id r) e]
                               | Inr d \<Rightarrow>
                                   (case validate_legacy_definition m d of
                                      Inl (OtherException e) \<Rightarrow> [LogError uuid (rev_id r) e]
                                    | _ \<Rightarrow> []))
                     (latest_revisions flow revs)))"
proof -
  have listed: "is_listed m =
      (\<lambda>r. is_goflow m r \<or>
         (case get_migrated_definition m r (FINAL_LEGACY_VERSION m) of
            Inl _ \<Rightarrow> False
          | Inr d \<Rightarrow> validate_legacy_definition m d = Inr ()))"
    by (rule ext) (simp add: is_listed_def)
  have reported: "reported m uuid =
      (\<lambda>r. if is_goflow m r then []
          else case get_migrated_definition m r (FINAL_LEGACY_VERSION m) of
                 Inl (ValueError _) \<Rightarrow> []
               | Inl (OtherException e) \<Rightarrow> [LogError uuid (rev_id r) e]
               | Inr d \<Rightarrow>
                   (case validate_legacy_definition m d of
                      Inl (OtherException e) \<Rightarrow> [LogError uuid (rev_id r) e]
                    | _ \<Rightarrow> []))"
    by (rule ext) (simp add: reported_def)
  have "revisions_get m uuid flow revs =
      Inr (JsonResults (map (as_json m) (filter (is_listed m) (latest_revisions flow revs))),
           concat (map (reported m uuid) (latest_revisions flow revs)))"
    using list_revisions_result [OF assms, of uuid "[]" "[]"]
    by (simp add: revisions_get_def)
  then show ?thesis
    by (simp only: listed reported)
qed

theorem revision_listing_validates_legacy_witness:
  "Version example_models (INITIAL_GOFLOW_VERSION example_models) = Some [13]
   \<and> map (Version example_models \<circ> spec_version) (latest_revisions 7 example_revisions) =
       [Some [13, 1], Some [13], Some [11, 11], Some [11, 10], Some [11, 9], Some [11, 12]]
   \<and> map rev_id (latest_revisions 7 example_revisions) = [8, 6, 9, 4, 3, 1]
   \<and> get_migrated_definition example_models
         \<lparr>rev_id = 3, rev_flow = 7, revision = 2, spec_version = ''11.9''\<rparr>
         (FINAL_LEGACY_VERSION example_models) = Inl (ValueError ''cannot migrate'')
   \<and> validate_legacy_definition example_models 9 = Inl (ValueError ''invalid ruleset'')
   \<and> validate_legacy_definition example_models 4 = Inl (OtherException ''KeyError: base_language'')
   \<and> validate_legacy_definition example_models 6 = Inl (OtherException ''not a legacy definition'')
   \<and> validate_legacy_definition example_models 1 = Inr ()
   \<and> revisions_get example_models ''f1'' 7 example_revisions =
       Inr (JsonResults [8, 6, 1], [LogError ''f1'' 4 ''KeyError: base_language''])"
proof -
  have latest: "latest_revisions 7 example_revisions =
      [\<lparr>rev_id = 8, rev_flow = 7, revision = 6, spec_version = ''13.1.0''\<rparr>,
       \<lparr>rev_id = 6, rev_flow = 7, revision = 5, spec_version = ''13.0''\<rparr>,
       \<lparr>rev_id = 9, rev_flow = 7, revision = 4, spec_version = ''11.11''\<rparr>,
       \<lparr>rev_id = 4, rev_flow = 7, revision = 3, spec_version = ''11.10''\<rparr>,
       \<lparr>rev_id = 3, rev_flow = 7, revision = 2, spec_version = ''11.9''\<rparr>,
       \<lparr>rev_id = 1, rev_flow = 7, revision = 1, spec_version = ''11.12''\<rparr>]"
    by code_simp
  have initial: "Version example_models (INITIAL_GOFLOW_VERSION example_models) = Some [13]"
    by code_simp
  have versions: "map (Version example_models \<circ> spec_version) (latest_revisions 7 example_revisions) =
       [Some [13, 1], Some [13], Some [11, 11], Some [11, 10], Some [11, 9], Some [11, 12]]"
    by code_simp
  have parsed: "\<forall>r \<in> set (latest_revisions 7 example_revisions).
      Version example_models (spec_version r) \<noteq> None"
    using versions by (simp add: latest)
  have outcomes: "get_migrated_definition example_models
         \<lparr>rev_id = 3, rev_flow = 7, revision = 2, spec_version = ''11.9''\<rparr>
         (FINAL_LEGACY_VERSION example_models) = Inl (ValueError ''cannot migrate'')
   \<and> validate_legacy_definition example_models 9 = Inl (ValueError ''invalid ruleset'')
   \<and> validate_legacy_definition example_models 4 = Inl (OtherException ''KeyError: base_language'')
   \<and> validate_legacy_definition example_models 6 = Inl (OtherException ''not a legacy definition'')
   \<and> validate_legacy_definition example_models 1 = Inr ()"
    by code_simp
  have listed: "map (as_json example_models)
      (filter
         (\<lambda>r. is_goflow example_models r \<or>
            (case get_migrated_definition example_models r (FINAL_LEGACY_VERSION example_models) of
               Inl _ \<Rightarrow> False
             | Inr d \<Rightarrow> validate_legacy_definition example_models d = Inr ()))
         (latest_revisions 7 example_revisions)) = [8, 6, 1]"
    by code_simp
  have logged: "concat
      (map (\<lambda>r. if is_goflow example_models r then []
              else case get_migrated_definition example_models r
                          (FINAL_LEGACY_VERSION example_models) of
                     Inl (ValueError _) \<Rightarrow> []
                   | Inl (OtherException e) \<Rightarrow> [LogError ''f1'' (rev_id r) e]
                   | Inr d \<Rightarrow>
                       (case validate_legacy_definition example_models d of
                          Inl (OtherException e) \<Rightarrow> [LogError ''f1'' (rev_id r) e]
                        | _ \<Rightarrow> []))
         (latest_revisions 7 example_revisions)) =
      [LogError ''f1'' 4 ''KeyError: base_language'']"
    by code_simp
  have ids: "map rev_id (latest_revisions 7 example_revisions) = [8, 6, 9, 4, 3, 1]"
    by (simp add: latest)
  from initial have "Version example_models (INITIAL_GOFLOW_VERSION example_models) \<noteq> None"
    by simp
  from revision_listing_validates_legacy [OF this parsed, of "''f1''"]
  have "revisions_get example_models ''f1'' 7 example_revisions =
       Inr (JsonResults [8, 6, 1], [LogError ''f1'' 4 ''KeyError: base_language''])"
    by (simp only: listed logged)
  then show ?thesis
    using initial versions ids outcomes by (simp only:)
qed

subsection \<open>C10: the listing considers the hundred latest revisions\<close>

text \<open>
  C10. The listing without a revision id returns when the versions it reads are versions,
  and whenever it returns, its result has at most 100 entries: they are the JSON of
  revisions of the flow, in descending order of the revision number, and each of them has
  fewer than 100 revisions of the flow with a greater revision number. So a revision with
  100 or more revisions of the flow above it is never listed.
\<close>

theorem revision_listing_latest_100:
  "(Version m (INITIAL_GOFLOW_VERSION m) \<noteq> None
      \<and> (\<forall>r \<in> set (latest_revisions flow revs). Version m (spec_version r) \<noteq> None)
      \<longrightarrow> (\<exists>results log. revisions_get m uuid flow revs = Inr (JsonResults results, log)))
   \<and> (\<forall>results log.
         revisions_get m uuid flow revs = Inr (JsonResults results, log) \<longrightarrow>
           length results \<le> 100
           \<and> (\<exists>listed.
                 results = map (as_json m) listed
                 \<and> set listed \<subseteq> {r \<in> set revs. rev_flow r = flow}
                 \<and> sorted_wrt (\<lambda>a b. revision a \<ge> revision b) listed
                 \<and> (\<forall>r \<in> set listed.
                       length (filter (\<lambda>r'. rev_flow r' = flow \<and> revision r < revision r') revs)
                         < 100)))"
proof (intro conjI impI allI)
  assume "Version m (INITIAL_GOFLOW_VERSION m) \<noteq> None
      \<and> (\<forall>r \<in> set (latest_revisions flow revs). Version m (spec_version r) \<noteq> None)"
  then show "\<exists>results log. revisions_get m uuid flow revs = Inr (JsonResults results, log)"
    using list_revisions_result [of m "latest_revisions flow revs" uuid "[]" "[]"]
    by (simp add: revisions_get_def)
next
  fix results log
  assume run: "revisions_get m uuid flow revs = Inr (JsonResults results, log)"
  let ?latest = "latest_revisions flow revs"
  let ?listed = "filter (is_listed m) ?latest"
  from run have loop: "list_revisions m uuid ?latest ([], []) = Inr (results, log)"
    by (auto simp: revisions_get_def split: sum.splits)
  have results: "results = map (as_json m) ?listed"
  proof (cases ?latest)
    case Nil
    with loop show ?thesis by simp
  next
    case (Cons r rs)
    have "Version m (INITIAL_GOFLOW_VERSION m) \<noteq> None"
      using loop [unfolded Cons] by (rule list_revisions_initial_parsed)
    moreover from loop have "\<forall>r \<in> set ?latest. Version m (spec_version r) \<noteq> None"
      by (rule list_revisions_parsed)
    ultimately have "list_revisions m uuid ?latest ([], []) =
        Inr ([] @ map (as_json m) ?listed, [] @ concat (map (reported m uuid) ?latest))"
      by (rule list_revisions_result)
    with loop show ?thesis by simp
  qed
  have "length ?listed \<le> 100"
    by (rule le_trans [OF length_filter_le latest_revisions_length])
  then show "length results \<le> 100"
    by (simp add: results)
  have "set ?listed \<subseteq> {r \<in> set revs. rev_flow r = flow}"
    using latest_revisions_subset [of flow revs] by auto
  moreover have "sorted_wrt (\<lambda>a b. revision a \<ge> revision b) ?listed"
    using latest_revisions_descending [of flow revs] by (rule sorted_wrt_filter)
  moreover have "\<forall>r \<in> set ?listed.
      length (filter (\<lambda>r'. rev_flow r' = flow \<and> revision r < revision r') revs) < 100"
    by (simp add: latest_revisions_newer)
  ultimately show "\<exists>listed.
      results = map (as_json m) listed
      \<and> set listed \<subseteq> {r \<in> set revs. rev_flow r = flow}
      \<and> sorted_wrt (\<lambda>a b. revision a \<ge> revision b) listed
      \<and> (\<forall>r \<in> set listed.
            length (filter (\<lambda>r'. rev_flow r' = flow \<and> revision r < revision r') revs) < 100)"
    using results by blast
qed

theorem revision_listing_latest_100_witness:
  "length many_revisions = 102
   \<and> revisions_get example_models ''f1'' 7 many_revisions =
       Inr (JsonResults (rev [3..<103]), [])
   \<and> length (rev [3..<103]) = 100
   \<and> 1 \<notin> set (rev [3..<103]) \<and> 2 \<notin> set (rev [3..<103])"
proof -
  have run: "revisions_get example_models ''f1'' 7 many_revisions =
      Inr (JsonResults (rev [3..<103]), [])"
    by code_simp
  have "length (rev [3..<103]) \<le> 100"
    using revision_listing_latest_100 [of example_models 7 many_revisions "''f1''"] run
    by blast
  then show ?thesis
    using run by (simp add: many_revisions_def)
qed

subsection \<open>The loop of the keyword validation\<close>

lemma clean_keywords_lists:
  "clean_keywords ops L triggers org instance_pk vs (duplicates, wrong_format, cleaned_keywords) =
     (let kws = filter (\<lambda>kw. kw \<noteq> []) (map (\<lambda>v. str_strip ops (str_lower ops v)) vs) in
      (duplicates @ filter (\<lambda>kw. existing_triggers ops triggers org instance_pk kw \<noteq> []) kws,
       wrong_format @ filter (\<lambda>kw. \<not> match_single_word ops kw \<or> len kw > L) kws,
       cleaned_keywords @ filter (\<lambda>kw. existing_triggers ops triggers org instance_pk kw = []) kws))"
  by (induction vs arbitrary: duplicates wrong_format cleaned_keywords) (simp_all add: Let_def)

subsection \<open>C5: a keyword is a duplicate when another flow uses it\<close>

text \<open>
  C5, as stated, fails: the validation leaves the triggers of the form's own flow out of
  the search for duplicates. The flow 7 of organization 1 has the active, unarchived
  trigger \<open>start\<close>; submitting \<open>Start\<close> for flow 7 again is accepted and cleans to \<open>start\<close>.
\<close>

theorem keyword_of_same_flow_counterexample:
  "trig_flow start_trigger = Some 7 \<and> trig_org start_trigger = 1
   \<and> iexact ascii_ops (keyword start_trigger) (str_strip ascii_ops (str_lower ascii_ops ''Start''))
   \<and> \<not> is_archived start_trigger \<and> is_active start_trigger
   \<and> clean_keyword_triggers ascii_ops 16 [start_trigger] 1 (Some 7) [''Start''] = Inr ''start''"
  by code_simp

text \<open>
  C5, amended. Whatever the operations on text are: when a submitted keyword, lowercased
  and stripped, is not empty and a trigger of the organization that is active, not
  archived and of another flow than the form's matches it without regard to case, the
  validation rejects the submission; when moreover every submitted keyword is a single
  word within the length limit, the error is the one of the keywords already used for
  another flow, and it names the keyword. And when every submitted keyword is well formed
  and no such trigger of another flow matches any of them, the submission is accepted,
  whatever the triggers of the form's own flow.
\<close>

theorem keyword_of_another_flow_rejected:
  "(v \<in> set val \<and> str_strip ops (str_lower ops v) \<noteq> [] \<and> t \<in> set triggers \<and> trig_org t = org
      \<and> trig_flow t \<noteq> instance_pk \<and> iexact ops (keyword t) (str_strip ops (str_lower ops v))
      \<and> \<not> is_archived t \<and> is_active t
    \<longrightarrow> (\<exists>e. clean_keyword_triggers ops L triggers org instance_pk val = Inl e)
        \<and> ((\<forall>v' \<in> set val. str_strip ops (str_lower ops v') = []
                \<or> match_single_word ops (str_strip ops (str_lower ops v')) \<and> len (str_strip ops (str_lower ops v')) \<le> L)
             \<longrightarrow> (\<exists>duplicates.
                    clean_keyword_triggers ops L triggers org instance_pk val
                      = Inl (KeywordsUsed duplicates)
                    \<and> str_strip ops (str_lower ops v) \<in> set duplicates)))
   \<and> ((\<forall>v' \<in> set val. str_strip ops (str_lower ops v') = []
          \<or> match_single_word ops (str_strip ops (str_lower ops v')) \<and> len (str_strip ops (str_lower ops v')) \<le> L)
        \<and> (\<forall>v' \<in> set val. \<forall>t' \<in> set triggers.
              trig_org t' = org \<and> iexact ops (keyword t') (str_strip ops (str_lower ops v'))
              \<and> \<not> is_archived t' \<and> is_active t' \<longrightarrow> trig_flow t' = instance_pk)
       \<longrightarrow> clean_keyword_triggers ops L triggers org instance_pk val
             = Inr (join '','' (filter (\<lambda>kw. kw \<noteq> []) (map (\<lambda>v. str_strip ops (str_lower ops v)) val))))"
proof (intro conjI impI)
  let ?kws = "filter (\<lambda>kw. kw \<noteq> []) (map (\<lambda>v. str_strip ops (str_lower ops v)) val)"
  let ?dup = "\<lambda>kw. existing_triggers ops triggers org instance_pk kw \<noteq> []"
  let ?wrong = "\<lambda>kw. \<not> match_single_word ops kw \<or> len kw > L"
  have run: "clean_keyword_triggers ops L triggers org instance_pk val =
      (if filter ?wrong ?kws \<noteq> [] then Inl (KeywordWrongFormat (filter ?wrong ?kws) L)
       else if filter ?dup ?kws \<noteq> [] then Inl (KeywordsUsed (filter ?dup ?kws))
       else Inr (join '','' (filter (\<lambda>kw. \<not> ?dup kw) ?kws)))"
    by (simp add: clean_keyword_triggers_def clean_keywords_lists Let_def)
  {
    assume a: "v \<in> set val \<and> str_strip ops (str_lower ops v) \<noteq> [] \<and> t \<in> set triggers \<and> trig_org t = org
      \<and> trig_flow t \<noteq> instance_pk \<and> iexact ops (keyword t) (str_strip ops (str_lower ops v))
      \<and> \<not> is_archived t \<and> is_active t"
    then have "t \<in> set (existing_triggers ops triggers org instance_pk (str_strip ops (str_lower ops v)))"
      by (simp add: existing_triggers_def)
    then have dup: "?dup (str_strip ops (str_lower ops v))"
      by auto
    moreover from a have "str_strip ops (str_lower ops v) \<in> set ?kws"
      by auto
    ultimately have mem: "str_strip ops (str_lower ops v) \<in> set (filter ?dup ?kws)"
      by simp
    then have nonempty: "filter ?dup ?kws \<noteq> []"
      by (metis empty_iff list.set(1))
    then show "\<exists>e. clean_keyword_triggers ops L triggers org instance_pk val = Inl e"
      by (simp add: run)
    assume wf: "\<forall>v' \<in> set val. str_strip ops (str_lower ops v') = []
                \<or> match_single_word ops (str_strip ops (str_lower ops v')) \<and> len (str_strip ops (str_lower ops v')) \<le> L"
    then have "filter ?wrong ?kws = []"
      by (auto simp: filter_empty_conv)
    with nonempty mem
    show "\<exists>duplicates. clean_keyword_triggers ops L triggers org instance_pk val
                      = Inl (KeywordsUsed duplicates) \<and> str_strip ops (str_lower ops v) \<in> set duplicates"
      by (simp add: run)
  }
  assume b: "(\<forall>v' \<in> set val. str_strip ops (str_lower ops v') = []
          \<or> match_single_word ops (str_strip ops (str_lower ops v')) \<and> len (str_strip ops (str_lower ops v')) \<le> L)
        \<and> (\<forall>v' \<in> set val. \<forall>t' \<in> set triggers.
              trig_org t' = org \<and> iexact ops (keyword t') (str_strip ops (str_lower ops v'))
              \<and> \<not> is_archived t' \<and> is_active t' \<longrightarrow> trig_flow t' = instance_pk)"
  then have "filter ?wrong ?kws = []"
    by (auto simp: filter_empty_conv)
  moreover from b have nodup: "\<forall>kw \<in> set ?kws. \<not> ?dup kw"
    by (auto simp: existing_triggers_def filter_empty_conv)
  then have "filter ?dup ?kws = []" and "filter (\<lambda>kw. \<not> ?dup kw) ?kws = ?kws"
    by (simp_all only: filter_empty_conv filter_id_conv not_not)
  ultimately show "clean_keyword_triggers ops L triggers org instance_pk val = Inr (join '','' ?kws)"
    by (simp add: run)
qed

theorem keyword_of_another_flow_rejected_witness:
  "clean_keyword_triggers ascii_ops 16 [start_trigger] 1 (Some 8) ['' Start '', ''join'']
     = Inl (KeywordsUsed [''start''])
   \<and> clean_keyword_triggers ascii_ops 16 [start_trigger] 1 (Some 7) ['' Start '', ''join'']
     = Inr ''start,join''"
proof -
  have rejected: "clean_keyword_triggers ascii_ops 16 [start_trigger] 1 (Some 8) ['' Start '', ''join'']
     = Inl (KeywordsUsed [''start''])"
    by code_simp
  have accepted: "clean_keyword_triggers ascii_ops 16 [start_trigger] 1 (Some 7) ['' Start '', ''join'']
     = Inr ''start,join''"
    by code_simp
  have facts: "'' Start '' \<in> set ['' Start '', ''join''] \<and> str_strip ascii_ops (str_lower ascii_ops '' Start '') \<noteq> []
      \<and> start_trigger \<in> set [start_trigger] \<and> trig_org start_trigger = 1
      \<and> trig_flow start_trigger \<noteq> Some 8 \<and> iexact ascii_ops (keyword start_trigger) (str_strip ascii_ops (str_lower ascii_ops '' Start ''))
      \<and> \<not> is_archived start_trigger \<and> is_active start_trigger"
    by code_simp
  have "\<exists>e. clean_keyword_triggers ascii_ops 16 [start_trigger] 1 (Some 8) ['' Start '', ''join''] = Inl e"
    using keyword_of_another_flow_rejected
      [where v = "'' Start ''" and val = "['' Start '', ''join'']" and t = start_trigger
        and triggers = "[start_trigger]" and org = 1 and instance_pk = "Some 8" and L = 16
        and ops = ascii_ops]
      facts
    by blast
  then show ?thesis
    using rejected accepted by simp
qed

subsection \<open>The two loops of the keyword reconciliation\<close>

lemma archive_keywords_map:
  "archive_keywords org obj kws triggers =
     map (\<lambda>t. if trig_flow t = Some obj \<and> trig_org t = org \<and> keyword t \<in> set kws
                   \<and> trig_groups t = [] \<and> \<not> is_archived t
                then t\<lparr>is_archived := True\<rparr> else t) triggers"
proof (induction kws arbitrary: triggers)
  case Nil
  show ?case by (simp add: map_idI)
next
  case (Cons kw kws)
  show ?case
    by (simp add: Cons.IH)
qed

lemma archive_keywords_any_order:
  "set kws = set kws' \<Longrightarrow> archive_keywords org obj kws triggers = archive_keywords org obj kws' triggers"
  by (simp add: archive_keywords_map)

lemma existing_keywords_archive:
  "existing_keywords (archive_keywords org obj kws triggers) org obj =
     existing_keywords triggers org obj - set kws"
proof -
  let ?g = "(\<lambda>t. if trig_flow t = Some obj \<and> trig_org t = org \<and> keyword t \<in> set kws
                   \<and> trig_groups t = [] \<and> \<not> is_archived t
                then t\<lparr>is_archived := True\<rparr> else t)"
  let ?P = "\<lambda>t. trig_flow t = Some obj \<and> trig_org t = org \<and> trigger_type t = TYPE_KEYWORD
                    \<and> \<not> is_archived t \<and> trig_groups t = []"
  have "map keyword (filter ?P (map ?g triggers)) =
        map keyword (filter (\<lambda>t. ?P t \<and> keyword t \<notin> set kws) triggers)"
    by (induction triggers) auto
  then show ?thesis
    unfolding existing_keywords_def archive_keywords_map by (simp only:) auto
qed

lemma archived_keywords_archive:
  "set (archived_keywords (archive_keywords org obj kws triggers) org obj) =
     set (archived_keywords triggers org obj) \<union> (existing_keywords triggers org obj \<inter> set kws)"
proof -
  let ?g = "(\<lambda>t. if trig_flow t = Some obj \<and> trig_org t = org \<and> keyword t \<in> set kws
                   \<and> trig_groups t = [] \<and> \<not> is_archived t
                then t\<lparr>is_archived := True\<rparr> else t)"
  let ?Q = "\<lambda>t. trig_flow t = Some obj \<and> trig_org t = org \<and> trigger_type t = TYPE_KEYWORD
                    \<and> is_archived t \<and> trig_groups t = []"
  let ?P = "\<lambda>t. trig_flow t = Some obj \<and> trig_org t = org \<and> trigger_type t = TYPE_KEYWORD
                    \<and> \<not> is_archived t \<and> trig_groups t = []"
  have "map keyword (filter ?Q (map ?g triggers)) =
        map keyword (filter (\<lambda>t. ?Q t \<or> ?P t \<and> keyword t \<in> set kws) triggers)"
    by (induction triggers) auto
  then show ?thesis
    unfolding existing_keywords_def archived_keywords_def archive_keywords_map
    by (simp only:) auto
qed

lemma add_keywords_ops:
  "snd (add_keywords org obj archived kws (triggers, ops)) =
     ops @ map (\<lambda>kw. if Some kw \<in> set archived then Reactivated kw else Created kw) kws"
  by (induction kws arbitrary: triggers ops) simp_all

lemma existing_keywords_unarchive:
  assumes "Some kw \<in> existing_keywords triggers org obj \<union> set (archived_keywords triggers org obj)"
  shows "existing_keywords
           (map (\<lambda>t. if trig_flow t = Some obj \<and> trig_org t = org \<and> keyword t = Some kw
                          \<and> trig_groups t = []
                       then t\<lparr>is_archived := False\<rparr> else t) triggers) org obj =
         insert (Some kw) (existing_keywords triggers org obj)"
proof -
  let ?u = "(\<lambda>t. if trig_flow t = Some obj \<and> trig_org t = org \<and> keyword t = Some kw
                          \<and> trig_groups t = []
                       then t\<lparr>is_archived := False\<rparr> else t)"
  let ?P = "\<lambda>t. trig_flow t = Some obj \<and> trig_org t = org \<and> trigger_type t = TYPE_KEYWORD
                    \<and> \<not> is_archived t \<and> trig_groups t = []"
  let ?K = "\<lambda>t. trig_flow t = Some obj \<and> trig_org t = org \<and> trigger_type t = TYPE_KEYWORD
                    \<and> trig_groups t = []"
  have "map keyword (filter ?P (map ?u triggers)) =
        map keyword (filter (\<lambda>t. ?K t \<and> (\<not> is_archived t \<or> keyword t = Some kw)) triggers)"
    by (induction triggers) auto
  then have "existing_keywords (map ?u triggers) org obj =
      set (map keyword (filter (\<lambda>t. ?K t \<and> (\<not> is_archived t \<or> keyword t = Some kw)) triggers))"
    unfolding existing_keywords_def by (simp only:)
  also have "\<dots> = insert (Some kw) (existing_keywords triggers org obj)"
    using assms unfolding existing_keywords_def archived_keywords_def by auto
  finally show ?thesis .
qed

lemma archived_keywords_unarchive:
  "set (archived_keywords
          (map (\<lambda>t. if trig_flow t = Some obj \<and> trig_org t = org \<and> keyword t = Some kw
                         \<and> trig_groups t = []
                      then t\<lparr>is_archived := False\<rparr> else t) triggers) org obj) =
     set (archived_keywords triggers org obj) - {Some kw}"
proof -
  let ?u = "(\<lambda>t. if trig_flow t = Some obj \<and> trig_org t = org \<and> keyword t = Some kw
                          \<and> trig_groups t = []
                       then t\<lparr>is_archived := False\<rparr> else t)"
  let ?Q = "\<lambda>t. trig_flow t = Some obj \<and> trig_org t = org \<and> trigger_type t = TYPE_KEYWORD
                    \<and> is_archived t \<and> trig_groups t = []"
  have "map keyword (filter ?Q (map ?u triggers)) =
        map keyword (filter (\<lambda>t. ?Q t \<and> keyword t \<noteq> Some kw) triggers)"
    by (induction triggers) auto
  then show ?thesis
    unfolding archived_keywords_def by (simp only:) auto
qed

lemma existing_keywords_create:
  "existing_keywords (triggers @ [create_trigger triggers org kw obj]) org obj =
     insert (Some kw) (existing_keywords triggers org obj)"
  by (simp add: existing_keywords_def create_trigger_def)

lemma archived_keywords_create:
  "archived_keywords (triggers @ [create_trigger triggers org kw obj]) org obj =
     archived_keywords triggers org obj"
  by (simp add: archived_keywords_def create_trigger_def)

lemma existing_keywords_add:
  assumes "set archived \<subseteq> existing_keywords triggers org obj \<union> set (archived_keywords triggers org obj)"
  shows "existing_keywords (fst (add_keywords org obj archived kws (triggers, ops))) org obj =
           existing_keywords triggers org obj \<union> Some ` set kws"
  using assms
proof (induction kws arbitrary: triggers ops)
  case Nil
  show ?case by simp
next
  case (Cons kw kws)
  show ?case
  proof (cases "Some kw \<in> set archived")
    case True
    let ?ts = "map (\<lambda>t. if trig_flow t = Some obj \<and> trig_org t = org \<and> keyword t = Some kw
                          \<and> trig_groups t = []
                       then t\<lparr>is_archived := False\<rparr> else t) triggers"
    from True Cons.prems
    have known: "Some kw \<in> existing_keywords triggers org obj \<union> set (archived_keywords triggers org obj)"
      by blast
    have ex: "existing_keywords ?ts org obj = insert (Some kw) (existing_keywords triggers org obj)"
      using known by (rule existing_keywords_unarchive)
    have "set archived \<subseteq> existing_keywords ?ts org obj \<union> set (archived_keywords ?ts org obj)"
      using Cons.prems by (simp only: ex archived_keywords_unarchive) blast
    from Cons.IH [OF this, of "ops @ [Reactivated kw]"] True show ?thesis
      by (simp only: add_keywords.simps if_True ex) simp
  next
    case False
    let ?ts = "triggers @ [create_trigger triggers org kw obj]"
    have "set archived \<subseteq> existing_keywords ?ts org obj \<union> set (archived_keywords ?ts org obj)"
      using Cons.prems by (simp only: existing_keywords_create archived_keywords_create) blast
    from Cons.IH [OF this, of "ops @ [Created kw]"] False show ?thesis
      by (simp only: add_keywords.simps if_False existing_keywords_create) simp
  qed
qed

lemma finite_submitted_keywords: "finite (submitted_keywords s)"
  by (simp add: submitted_keywords_def)

lemma finite_existing_keywords: "finite (existing_keywords triggers org obj)"
  by (simp add: existing_keywords_def)

lemma post_save_unfold:
  "post_save org obj (Some s) triggers =
     (let existing = existing_keywords triggers org obj;
          removed = sorted_list_of_set (existing - Some ` submitted_keywords s);
          added = sorted_list_of_set (Set.filter (\<lambda>kw. Some kw \<notin> existing) (submitted_keywords s));
          triggers1 = archive_keywords org obj removed triggers;
          r = add_keywords org obj (archived_keywords triggers1 org obj) added
                (triggers1, map Archived removed)
      in (fst r, snd r, [update_run_expirations_task obj]))"
  by (simp add: post_save_def Let_def split_beta)

lemma post_save_existing_keywords:
  "existing_keywords (fst (post_save org obj (Some s) triggers)) org obj = Some ` submitted_keywords s"
proof -
  let ?E = "existing_keywords triggers org obj"
  let ?B = "submitted_keywords s"
  let ?removed = "sorted_list_of_set (?E - Some ` ?B)"
  let ?added = "sorted_list_of_set (Set.filter (\<lambda>kw. Some kw \<notin> ?E) ?B)"
  let ?t1 = "archive_keywords org obj ?removed triggers"
  have removed: "set ?removed = ?E - Some ` ?B"
    by (simp add: finite_existing_keywords)
  have added: "set ?added = {kw \<in> ?B. Some kw \<notin> ?E}"
    by (auto simp: finite_submitted_keywords)
  have e1: "existing_keywords ?t1 org obj = ?E \<inter> Some ` ?B"
    by (simp only: existing_keywords_archive removed) blast
  have "existing_keywords
          (fst (add_keywords org obj (archived_keywords ?t1 org obj) ?added (?t1, map Archived ?removed)))
          org obj = existing_keywords ?t1 org obj \<union> Some ` set ?added"
    by (rule existing_keywords_add) blast
  also have "\<dots> = Some ` ?B"
    by (simp only: e1 added) blast
  finally show ?thesis
    by (simp add: post_save_unfold Let_def)
qed

lemma post_save_ops:
  "fst (snd (post_save org obj (Some s) triggers)) =
     map Archived (sorted_list_of_set (existing_keywords triggers org obj - Some ` submitted_keywords s))
     @ map (\<lambda>kw. if Some kw \<in> set (archived_keywords triggers org obj)
                 then Reactivated kw else Created kw)
         (sorted_list_of_set
            (Set.filter (\<lambda>kw. Some kw \<notin> existing_keywords triggers org obj) (submitted_keywords s)))"
proof -
  let ?E = "existing_keywords triggers org obj"
  let ?B = "submitted_keywords s"
  let ?removed = "sorted_list_of_set (?E - Some ` ?B)"
  let ?added = "sorted_list_of_set (Set.filter (\<lambda>kw. Some kw \<notin> ?E) ?B)"
  let ?t1 = "archive_keywords org obj ?removed triggers"
  have added: "set ?added = {kw \<in> ?B. Some kw \<notin> ?E}"
    by (auto simp: finite_submitted_keywords)
  have same: "(Some kw \<in> set (archived_keywords ?t1 org obj)) =
              (Some kw \<in> set (archived_keywords triggers org obj))" if "kw \<in> set ?added" for kw
    using that by (simp only: archived_keywords_archive added) blast
  have "map (\<lambda>kw. if Some kw \<in> set (archived_keywords ?t1 org obj)
                  then Reactivated kw else Created kw) ?added
        = map (\<lambda>kw. if Some kw \<in> set (archived_keywords triggers org obj)
                  then Reactivated kw else Created kw) ?added"
    by (rule map_cong [OF refl]) (simp only: same)
  then show ?thesis
    by (simp add: post_save_unfold Let_def add_keywords_ops)
qed

lemma post_save_again:
  assumes "existing_keywords triggers org obj = Some ` submitted_keywords s"
  shows "post_save org obj (Some s) triggers = (triggers, [], [update_run_expirations_task obj])"
proof -
  have removed: "existing_keywords triggers org obj - Some ` submitted_keywords s = {}"
    using assms by simp
  have added: "Set.filter (\<lambda>kw. Some kw \<notin> existing_keywords triggers org obj) (submitted_keywords s) = {}"
    using assms by auto
  show ?thesis
    by (simp only: post_save_unfold Let_def removed added sorted_list_of_set_empty) simp
qed

subsection \<open>C3: the reconciliation of the keyword triggers is idempotent\<close>

text \<open>
  C3. For every table of triggers, organization, flow and cleaned value of the keyword
  field, \<open>post_save\<close> archives the triggers of the keywords that the flow has and the
  submission lacks, then goes through the submitted keywords that the flow lacks in sorted
  order, reactivating those for which the flow had an archived keyword trigger and
  creating a trigger for the others. Afterwards the flow's unarchived keywords are the
  submitted ones, and running \<open>post_save\<close> again with the same value on the resulting table
  takes no step and leaves the table as it is.
\<close>

theorem keyword_reconciliation_idempotent:
  "fst (snd (post_save org obj (Some s) triggers)) =
     map Archived (sorted_list_of_set (existing_keywords triggers org obj - Some ` submitted_keywords s))
     @ map (\<lambda>kw. if Some kw \<in> set (archived_keywords triggers org obj)
                 then Reactivated kw else Created kw)
         (sorted_list_of_set (submitted_keywords s - {kw. Some kw \<in> existing_keywords triggers org obj}))
   \<and> existing_keywords (fst (post_save org obj (Some s) triggers)) org obj = Some ` submitted_keywords s
   \<and> post_save org obj (Some s) (fst (post_save org obj (Some s) triggers)) =
       (fst (post_save org obj (Some s) triggers), [], [update_run_expirations_task obj])
   \<and> post_save org obj None triggers = (triggers, [], [update_run_expirations_task obj])"
proof -
  have "Set.filter (\<lambda>kw. Some kw \<notin> existing_keywords triggers org obj) (submitted_keywords s)
          = submitted_keywords s - {kw. Some kw \<in> existing_keywords triggers org obj}"
    by auto
  then have "fst (snd (post_save org obj (Some s) triggers)) =
     map Archived (sorted_list_of_set (existing_keywords triggers org obj - Some ` submitted_keywords s))
     @ map (\<lambda>kw. if Some kw \<in> set (archived_keywords triggers org obj)
                 then Reactivated kw else Created kw)
         (sorted_list_of_set (submitted_keywords s - {kw. Some kw \<in> existing_keywords triggers org obj}))"
    by (simp only: post_save_ops)
  moreover have "post_save org obj (Some s) (fst (post_save org obj (Some s) triggers)) =
       (fst (post_save org obj (Some s) triggers), [], [update_run_expirations_task obj])"
    by (rule post_save_again) (rule post_save_existing_keywords)
  moreover have "post_save org obj None triggers = (triggers, [], [update_run_expirations_task obj])"
    by (simp add: post_save_def)
  ultimately show ?thesis
    using post_save_existing_keywords [of org obj s triggers] by blast
qed

theorem keyword_reconciliation_idempotent_witness:
  "fst (snd (post_save 1 7 (Some ''start,join,new,begin'') example_triggers)) =
     [Archived (Some ''stop''), Created ''begin'', Reactivated ''join'', Created ''new'']
   \<and> existing_keywords (fst (post_save 1 7 (Some ''start,join,new,begin'') example_triggers)) 1 7 =
       {Some ''start'', Some ''join'', Some ''new'', Some ''begin''}
   \<and> post_save 1 7 (Some ''start,join,new,begin'')
       (fst (post_save 1 7 (Some ''start,join,new,begin'') example_triggers)) =
       (fst (post_save 1 7 (Some ''start,join,new,begin'') example_triggers), [],
        [update_run_expirations_task 7])"
proof -
  have ops: "fst (snd (post_save 1 7 (Some ''start,join,new,begin'') example_triggers)) =
     [Archived (Some ''stop''), Created ''begin'', Reactivated ''join'', Created ''new'']"
    by code_simp
  have submitted: "Some ` submitted_keywords ''start,join,new,begin'' =
      {Some ''start'', Some ''join'', Some ''new'', Some ''begin''}"
    by (simp add: submitted_keywords_def)
  show ?thesis
    using keyword_reconciliation_idempotent [of 1 7 "''start,join,new,begin''" example_triggers]
    by (simp only: ops submitted)
qed

subsection \<open>C1: a flow that is starting cannot be started again\<close>

text \<open>
  C1, as stated, fails: both \<open>clean_omnibox\<close> and \<open>clean_contact_query\<close> read
  \<open>self.data["recipients_mode"]\<close>, and a submission without that key ends in a KeyError
  while the fields are cleaned, before \<open>clean\<close> is reached. For a flow that is starting such
  a submission does not fail validation: the request ends with the exception.
\<close>

theorem broadcast_without_mode_counterexample:
  "is_starting \<lparr>flow_pk = 7, is_starting = True, is_suspended = False, is_flagged = False\<rparr>
   \<and> broadcast_post ascii_ops (\<lambda>q. Inr q) ''admin''
       \<lparr>flow_pk = 7, is_starting = True, is_suspended = False, is_flagged = False\<rparr>
       \<lparr>omnibox = [Contact 3], restart_participants = False, include_active = False,
        recipients_mode = None, contact_query = ''''\<rparr> []
     = (Inl (KeyError ''recipients_mode''), [])"
  by code_simp

text \<open>
  C1, amended. When \<open>flow.is_starting()\<close> holds, a submission of the broadcast form makes
  no call of \<open>async_start\<close>, whatever its recipients, its mode, its query and its two
  flags; and when the submission carries a recipients mode, the form is invalid and its
  errors include the one that the flow is already being started.
\<close>

theorem starting_flow_rejects_broadcast:
  assumes "is_starting flow"
  shows "snd (broadcast_post ops parse_query user flow d starts) = starts
         \<and> fst (broadcast_post ops parse_query user flow d starts) \<noteq> Inr FlowStarted
         \<and> (recipients_mode d \<noteq> None \<longrightarrow>
              (\<exists>errors. fst (broadcast_post ops parse_query user flow d starts) = Inr (FormInvalid errors)
                        \<and> (None, AlreadyStarting) \<in> set errors))"
proof (cases "full_clean ops parse_query flow d")
  case (Inl e)
  moreover from Inl have "recipients_mode d = None"
    by (auto simp: full_clean_def clean_omnibox_def clean_recipients_mode_def
        clean_contact_query_def Let_def split: option.splits sum.splits if_splits)
  ultimately show ?thesis
    by (simp add: broadcast_post_def)
next
  case (Inr r)
  obtain errors cleaned where r: "r = (errors, cleaned)"
    by (cases r)
  from Inr r assms have "(None, AlreadyStarting) \<in> set errors"
    by (auto simp: full_clean_def clean_def split: sum.splits)
  moreover from this have "errors \<noteq> []"
    by auto
  ultimately show ?thesis
    using Inr r by (simp add: broadcast_post_def)
qed

theorem starting_flow_rejects_broadcast_witness:
  "is_starting \<lparr>flow_pk = 7, is_starting = True, is_suspended = False, is_flagged = False\<rparr>
   \<and> broadcast_post ascii_ops (\<lambda>q. Inr q) ''admin''
       \<lparr>flow_pk = 7, is_starting = True, is_suspended = False, is_flagged = False\<rparr>
       \<lparr>omnibox = [Contact 3, Group 5], restart_participants = True, include_active = False,
        recipients_mode = Some ''select'', contact_query = ''''\<rparr> []
     = (Inr (FormInvalid [(None, AlreadyStarting)]), [])
   \<and> broadcast_post ascii_ops (\<lambda>q. Inr q) ''admin''
       \<lparr>flow_pk = 7, is_starting = True, is_suspended = False, is_flagged = False\<rparr>
       \<lparr>omnibox = [], restart_participants = False, include_active = True,
        recipients_mode = Some ''query'', contact_query = ''age > 18''\<rparr> []
     = (Inr (FormInvalid [(None, AlreadyStarting)]), [])
   \<and> broadcast_post ascii_ops (\<lambda>q. Inr q) ''admin''
       \<lparr>flow_pk = 7, is_starting = False, is_suspended = False, is_flagged = False\<rparr>
       \<lparr>omnibox = [Contact 3, Group 5], restart_participants = True, include_active = False,
        recipients_mode = Some ''select'', contact_query = ''''\<rparr> []
     = (Inr FlowStarted,
        [\<lparr>start_flow = 7, start_user = ''admin'', start_groups = [5], start_contacts = [3],
          start_query = None, start_restart_participants = True,
          start_include_active = False\<rparr>])"
proof -
  let ?flow = "\<lparr>flow_pk = 7, is_starting = True, is_suspended = False, is_flagged = False\<rparr>"
  have starting: "is_starting ?flow"
    by simp
  have select: "broadcast_post ascii_ops (\<lambda>q. Inr q) ''admin'' ?flow
       \<lparr>omnibox = [Contact 3, Group 5], restart_participants = True, include_active = False,
        recipients_mode = Some ''select'', contact_query = ''''\<rparr> []
     = (Inr (FormInvalid [(None, AlreadyStarting)]), [])"
    by code_simp
  have query: "broadcast_post ascii_ops (\<lambda>q. Inr q) ''admin'' ?flow
       \<lparr>omnibox = [], restart_participants = False, include_active = True,
        recipients_mode = Some ''query'', contact_query = ''age > 18''\<rparr> []
     = (Inr (FormInvalid [(None, AlreadyStarting)]), [])"
    by code_simp
  have idle: "broadcast_post ascii_ops (\<lambda>q. Inr q) ''admin''
       \<lparr>flow_pk = 7, is_starting = False, is_suspended = False, is_flagged = False\<rparr>
       \<lparr>omnibox = [Contact 3, Group 5], restart_participants = True, include_active = False,
        recipients_mode = Some ''select'', contact_query = ''''\<rparr> []
     = (Inr FlowStarted,
        [\<lparr>start_flow = 7, start_user = ''admin'', start_groups = [5], start_contacts = [3],
          start_query = None, start_restart_participants = True,
          start_include_active = False\<rparr>])"
    by code_simp
  from starting_flow_rejects_broadcast [OF starting, of ascii_ops "\<lambda>q. Inr q" "''admin''"
      "\<lparr>omnibox = [Contact 3, Group 5], restart_participants = True, include_active = False,
        recipients_mode = Some ''select'', contact_query = ''''\<rparr>" "[]"]
  have "snd (broadcast_post ascii_ops (\<lambda>q. Inr q) ''admin'' ?flow
       \<lparr>omnibox = [Contact 3, Group 5], restart_participants = True, include_active = False,
        recipients_mode = Some ''select'', contact_query = ''''\<rparr> []) = []"
    by blast
  with starting select query idle show ?thesis
    by (simp only:)
qed

subsection \<open>C4: conflicts on saving a revision\<close>

text \<open>
  C4. When saving the revision raises a version conflict, the endpoint answers with the
  HTTP status 400, the status \<open>failure\<close> and the message that the flow has been upgraded;
  when it raises a user conflict, it answers with the HTTP status 400, the status
  \<open>failure\<close> and a message that starts with the name of the other editor. In both cases
  the flow is left as it was, so no revision is created. The save raises the version
  conflict when the flow's spec version is beyond the one of the posted definition, and
  otherwise the user conflict when the posted revision is behind and the last editor is
  another user.
\<close>

theorem revision_conflicts_answer_400_without_mutation:
  "(snd (save_revision validate flow user d) = Inl FlowVersionConflictException \<longrightarrow>
      revisions_post validate True flow user (Inr d) =
        (flow,
         Inr \<lparr>http_status = 400, body_status = ''failure'',
              body_description =
                Some (''Your flow has been upgraded to the latest version. ''
                      @ ''In order to continue editing, please refresh your browser.''),
              body_detail = None, body_revision = None\<rparr>))
   \<and> (snd (save_revision validate flow user d) = Inl (FlowUserConflictException other_user) \<longrightarrow>
      revisions_post validate True flow user (Inr d) =
        (flow,
         Inr \<lparr>http_status = 400, body_status = ''failure'',
              body_description =
                Some (other_user @ '' is currently editing this Flow. ''
                      @ ''Your changes will not be saved until you refresh your browser.''),
              body_detail = None, body_revision = None\<rparr>))
   \<and> (def_spec_version d < doc_spec_version flow \<longrightarrow>
        snd (save_revision validate flow user d) = Inl FlowVersionConflictException)
   \<and> (\<not> def_spec_version d < doc_spec_version flow \<and> def_revision d < doc_revision flow
        \<and> doc_saved_by flow \<noteq> user \<longrightarrow>
        snd (save_revision validate flow user d) = Inl (FlowUserConflictException (doc_saved_by flow)))"
proof -
  have unchanged: "fst (save_revision validate flow user d) = flow"
    if "snd (save_revision validate flow user d) = Inl e" for e
    using that by (auto simp: save_revision_def Let_def split: if_splits option.splits)
  have answer: "revisions_post validate True flow user (Inr d) =
      (fst (save_revision validate flow user d),
       Inr \<lparr>http_status = 400, body_status = ''failure'',
            body_description =
              Some (case e of
                 FlowValidationException _ \<Rightarrow>
                   ''Your flow failed validation. Please refresh your browser.''
               | FlowVersionConflictException \<Rightarrow>
                   ''Your flow has been upgraded to the latest version. ''
                   @ ''In order to continue editing, please refresh your browser.''
               | FlowUserConflictException other_user \<Rightarrow>
                   other_user @ '' is currently editing this Flow. ''
                   @ ''Your changes will not be saved until you refresh your browser.''),
            body_detail = (case e of FlowValidationException detail \<Rightarrow> Some detail | _ \<Rightarrow> None),
            body_revision = None\<rparr>)"
    if "snd (save_revision validate flow user d) = Inl e" for e
    using that by (cases "save_revision validate flow user d") (simp add: revisions_post_def)
  show ?thesis
  proof (intro conjI impI)
    assume raised: "snd (save_revision validate flow user d) = Inl FlowVersionConflictException"
    show "revisions_post validate True flow user (Inr d) =
        (flow,
         Inr \<lparr>http_status = 400, body_status = ''failure'',
              body_description =
                Some (''Your flow has been upgraded to the latest version. ''
                      @ ''In order to continue editing, please refresh your browser.''),
              body_detail = None, body_revision = None\<rparr>)"
      by (simp only: answer [OF raised] unchanged [OF raised] save_exn.case)
  next
    assume raised: "snd (save_revision validate flow user d) = Inl (FlowUserConflictException other_user)"
    show "revisions_post validate True flow user (Inr d) =
        (flow,
         Inr \<lparr>http_status = 400, body_status = ''failure'',
              body_description =
                Some (other_user @ '' is currently editing this Flow. ''
                      @ ''Your changes will not be saved until you refresh your browser.''),
              body_detail = None, body_revision = None\<rparr>)"
      by (simp only: answer [OF raised] unchanged [OF raised] save_exn.case)
  next
    assume "def_spec_version d < doc_spec_version flow"
    then show "snd (save_revision validate flow user d) = Inl FlowVersionConflictException"
      by (simp add: save_revision_def)
  next
    assume "\<not> def_spec_version d < doc_spec_version flow \<and> def_revision d < doc_revision flow
        \<and> doc_saved_by flow \<noteq> user"
    then show "snd (save_revision validate flow user d) = Inl (FlowUserConflictException (doc_saved_by flow))"
      by (simp add: save_revision_def)
  qed
qed

theorem revision_conflicts_answer_400_without_mutation_witness:
  "revisions_post (\<lambda>b. None) True
     \<lparr>doc_revisions = [(1, ''a'')], doc_saved_by = ''ann'', doc_revision = 1,
      doc_spec_version = (13::nat)\<rparr> ''bob''
     (Inr \<lparr>def_spec_version = 12, def_revision = 1, def_body = ''b''\<rparr>) =
     (\<lparr>doc_revisions = [(1, ''a'')], doc_saved_by = ''ann'', doc_revision = 1,
       doc_spec_version = 13\<rparr>,
      Inr \<lparr>http_status = 400, body_status = ''failure'',
           body_description =
             Some (''Your flow has been upgraded to the latest version. ''
                   @ ''In order to continue editing, please refresh your browser.''),
           body_detail = None, body_revision = None\<rparr>)
   \<and> revisions_post (\<lambda>b. None) True
     \<lparr>doc_revisions = [(1, ''a'')], doc_saved_by = ''ann'', doc_revision = 1,
      doc_spec_version = (13::nat)\<rparr> ''bob''
     (Inr \<lparr>def_spec_version = 13, def_revision = 0, def_body = ''b''\<rparr>) =
     (\<lparr>doc_revisions = [(1, ''a'')], doc_saved_by = ''ann'', doc_revision = 1,
       doc_spec_version = 13\<rparr>,
      Inr \<lparr>http_status = 400, body_status = ''failure'',
           body_description =
             Some (''ann is currently editing this Flow. ''
                   @ ''Your changes will not be saved until you refresh your browser.''),
           body_detail = None, body_revision = None\<rparr>)
   \<and> fst (revisions_post (\<lambda>b. None) True
     \<lparr>doc_revisions = [(1, ''a'')], doc_saved_by = ''ann'', doc_revision = 1,
      doc_spec_version = (13::nat)\<rparr> ''bob''
     (Inr \<lparr>def_spec_version = 13, def_revision = 1, def_body = ''b''\<rparr>)) =
     \<lparr>doc_revisions = [(1, ''a''), (2, ''b'')], doc_saved_by = ''bob'', doc_revision = 2,
      doc_spec_version = 13\<rparr>"
proof -
  let ?flow = "\<lparr>doc_revisions = [(1, ''a'')], doc_saved_by = ''ann'', doc_revision = 1,
      doc_spec_version = (13::nat)\<rparr>"
  let ?old = "\<lparr>def_spec_version = (12::nat), def_revision = 1, def_body = ''b''\<rparr>"
  let ?behind = "\<lparr>def_spec_version = (13::nat), def_revision = 0, def_body = ''b''\<rparr>"
  have version: "snd (save_revision (\<lambda>b. None) ?flow ''bob'' ?old) = Inl FlowVersionConflictException"
    by (simp add: save_revision_def)
  have editor: "snd (save_revision (\<lambda>b. None) ?flow ''bob'' ?behind) =
      Inl (FlowUserConflictException ''ann'')"
    by (simp add: save_revision_def)
  have saved: "fst (revisions_post (\<lambda>b. None) True ?flow ''bob''
     (Inr \<lparr>def_spec_version = 13, def_revision = 1, def_body = ''b''\<rparr>)) =
     \<lparr>doc_revisions = [(1, ''a''), (2, ''b'')], doc_saved_by = ''bob'', doc_revision = 2,
      doc_spec_version = 13\<rparr>"
    by code_simp
  from revision_conflicts_answer_400_without_mutation [of "\<lambda>b. None" ?flow "''bob''" ?old "''ann''"]
    version
  have one: "revisions_post (\<lambda>b. None) True ?flow ''bob'' (Inr ?old) =
        (?flow,
         Inr \<lparr>http_status = 400, body_status = ''failure'',
              body_description =
                Some (''Your flow has been upgraded to the latest version. ''
                      @ ''In order to continue editing, please refresh your browser.''),
              body_detail = None, body_revision = None\<rparr>)"
    by blast
  from revision_conflicts_answer_400_without_mutation [of "\<lambda>b. None" ?flow "''bob''" ?behind "''ann''"]
    editor
  have two: "revisions_post (\<lambda>b. None) True ?flow ''bob'' (Inr ?behind) =
        (?flow,
         Inr \<lparr>http_status = 400, body_status = ''failure'',
              body_description =
                Some (''ann'' @ '' is currently editing this Flow. ''
                      @ ''Your changes will not be saved until you refresh your browser.''),
              body_detail = None, body_revision = None\<rparr>)"
    by blast
  show ?thesis
    using one two saved by simp
qed

subsection \<open>C6: the declared language of an imported catalog\<close>

text \<open>
  C6. When the uploaded catalog parses and declares a language code, the upload form is
  invalid and nothing is stored if the code is the base language of the flow, and
  likewise if the code is not among the languages of the organization.
\<close>

theorem declared_language_is_validated:
  assumes "po_get_info file = Inr info"
    and "language_code info = Some code"
    and "code \<noteq> []"
  shows "(code = base_language flow \<longrightarrow>
            import_translation_upload po_get_info flow (Some file) stored =
              (UploadInvalid [(Some ''po_file'', BaseLanguage (language_name info))], stored))
         \<and> (code \<notin> set (org_languages flow) \<longrightarrow>
              (\<exists>e. import_translation_upload po_get_info flow (Some file) stored =
                     (UploadInvalid [(Some ''po_file'', e)], stored)
                   \<and> (code \<noteq> base_language flow \<longrightarrow> e = UnsupportedLanguage (language_name info))))"
  using assms by (simp add: import_translation_upload_def clean_po_file_def)

theorem declared_language_is_validated_witness:
  "import_translation_upload
     (\<lambda>f. if f = ''msgid'' then Inr \<lparr>language_name = ''English'', language_code = Some ''eng''\<rparr>
           else Inl ''no catalog'')
     \<lparr>base_language = ''eng'', org_languages = [''eng'', ''fra'']\<rparr> (Some ''msgid'') [] =
     (UploadInvalid [(Some ''po_file'', BaseLanguage ''English'')], [])
   \<and> import_translation_upload
     (\<lambda>f. if f = ''msgid'' then Inr \<lparr>language_name = ''Spanish'', language_code = Some ''spa''\<rparr>
           else Inl ''no catalog'')
     \<lparr>base_language = ''eng'', org_languages = [''eng'', ''fra'']\<rparr> (Some ''msgid'') [] =
     (UploadInvalid [(Some ''po_file'', UnsupportedLanguage ''Spanish'')], [])
   \<and> import_translation_upload
     (\<lambda>f. if f = ''msgid'' then Inr \<lparr>language_name = ''French'', language_code = Some ''fra''\<rparr>
           else Inl ''no catalog'')
     \<lparr>base_language = ''eng'', org_languages = [''eng'', ''fra'']\<rparr> (Some ''msgid'') [] =
     (RedirectToConfirm 0, [''msgid''])"
proof -
  let ?flow = "\<lparr>base_language = ''eng'', org_languages = [''eng'', ''fra'']\<rparr>"
  let ?eng = "\<lambda>f. if f = ''msgid'' then Inr \<lparr>language_name = ''English'', language_code = Some ''eng''\<rparr>
           else Inl ''no catalog''"
  let ?spa = "\<lambda>f. if f = ''msgid'' then Inr \<lparr>language_name = ''Spanish'', language_code = Some ''spa''\<rparr>
           else Inl ''no catalog''"
  have "import_translation_upload ?eng ?flow (Some ''msgid'') [] =
     (UploadInvalid [(Some ''po_file'', BaseLanguage ''English'')], [])"
    using declared_language_is_validated
      [of ?eng "''msgid''" "\<lparr>language_name = ''English'', language_code = Some ''eng''\<rparr>"
        "''eng''" ?flow "[]"]
    by simp
  moreover have "import_translation_upload ?spa ?flow (Some ''msgid'') [] =
     (UploadInvalid [(Some ''po_file'', UnsupportedLanguage ''Spanish'')], [])"
    using declared_language_is_validated
      [of ?spa "''msgid''" "\<lparr>language_name = ''Spanish'', language_code = Some ''spa''\<rparr>"
        "''spa''" ?flow "[]"]
    by simp
  moreover have "import_translation_upload
     (\<lambda>f. if f = ''msgid'' then Inr \<lparr>language_name = ''French'', language_code = Some ''fra''\<rparr>
           else Inl ''no catalog'') ?flow (Some ''msgid'') [] = (RedirectToConfirm 0, [''msgid''])"
    by (simp add: import_translation_upload_def clean_po_file_def)
  ultimately show ?thesis
    by blast
qed

subsection \<open>C8: one export of results at a time\<close>

lemma fold_max_ge: "x \<in> set xs \<Longrightarrow> x \<le> fold max xs (a::nat)"
proof -
  assume "x \<in> set xs"
  then have "x \<le> Max (set (a # xs))"
    by (intro Max_ge) simp_all
  then show ?thesis
    by (simp only: Max.set_eq_fold)
qed

lemma create_export_fresh: "export_id (create_export org user form tasks) \<notin> export_id ` set tasks"
proof
  assume "export_id (create_export org user form tasks) \<in> export_id ` set tasks"
  then have "Suc (fold max (map export_id tasks) 0) \<in> set (map export_id tasks)"
    by (simp add: create_export_def)
  then have "Suc (fold max (map export_id tasks) 0) \<le> fold max (map export_id tasks) 0"
    by (rule fold_max_ge)
  then show False by simp
qed

text \<open>
  C8. When the org has a recent unfinished export, the view adds the message that an
  export is in progress, with the name of the user who started it, and changes nothing
  else: no task record is created and nothing is registered or queued. When it has none,
  the view creates exactly one task record, of the org and the user and under a new id,
  and registers one call of the export task for it; the call is not in the queue before
  the transaction commits and is in the queue after.
\<close>

theorem unfinished_export_blocks_another:
  "(get_recent_unfinished (export_tasks st) org = Some existing \<longrightarrow>
      snd (export_form_valid get_recent_unfinished eager pjax org user form st) =
        st\<lparr>messages := messages st @ [ExportInProgress (export_created_by existing)]\<rparr>)
   \<and> (get_recent_unfinished (export_tasks st) org = None \<longrightarrow>
        (\<exists>export.
           export_tasks (snd (export_form_valid get_recent_unfinished eager pjax org user form st))
             = export_tasks st @ [export]
           \<and> export_id export \<notin> export_id ` set (export_tasks st)
           \<and> export_org export = org \<and> export_created_by export = user
           \<and> on_commit (snd (export_form_valid get_recent_unfinished eager pjax org user form st))
               = on_commit st @ [export_flow_results_task (export_id export)]
           \<and> queue (snd (export_form_valid get_recent_unfinished eager pjax org user form st))
               = queue st
           \<and> queue (transaction_commit
                (snd (export_form_valid get_recent_unfinished eager pjax org user form st)))
               = queue st @ on_commit st @ [export_flow_results_task (export_id export)]))"
proof (intro conjI impI)
  assume "get_recent_unfinished (export_tasks st) org = Some existing"
  then show "snd (export_form_valid get_recent_unfinished eager pjax org user form st) =
        st\<lparr>messages := messages st @ [ExportInProgress (export_created_by existing)]\<rparr>"
    by (simp add: export_form_valid_def)
next
  assume none: "get_recent_unfinished (export_tasks st) org = None"
  let ?export = "create_export org user form (export_tasks st)"
  let ?st = "snd (export_form_valid get_recent_unfinished eager pjax org user form st)"
  have "export_tasks ?st = export_tasks st @ [?export]"
    and "on_commit ?st = on_commit st @ [export_flow_results_task (export_id ?export)]"
    and "queue ?st = queue st"
    and "queue (transaction_commit ?st)
           = queue st @ on_commit st @ [export_flow_results_task (export_id ?export)]"
    using none
    by (simp_all add: export_form_valid_def on_transaction_commit_def transaction_commit_def Let_def)
  moreover have "export_org ?export = org" "export_created_by ?export = user"
    by (simp_all add: create_export_def)
  ultimately show "\<exists>export.
           export_tasks ?st = export_tasks st @ [export]
           \<and> export_id export \<notin> export_id ` set (export_tasks st)
           \<and> export_org export = org \<and> export_created_by export = user
           \<and> on_commit ?st = on_commit st @ [export_flow_results_task (export_id export)]
           \<and> queue ?st = queue st
           \<and> queue (transaction_commit ?st)
               = queue st @ on_commit st @ [export_flow_results_task (export_id export)]"
    using create_export_fresh [of org user form "export_tasks st"] by blast
qed

theorem unfinished_export_blocks_another_witness:
  "snd (export_form_valid (\<lambda>tasks org. List.find (\<lambda>t. export_org t = org) tasks) False False 1 ''bob''
      \<lparr>form_flows = [7], form_contact_fields = [], form_include_msgs = False,
       form_responded_only = True, form_extra_urns = [], form_group_memberships = []\<rparr>
      \<lparr>export_tasks =
         [\<lparr>export_id = 4, export_org = 1, export_created_by = ''ann'', export_flows = [7],
           export_contact_fields = [], export_include_msgs = False,
           export_responded_only = True, export_extra_urns = [],
           export_group_memberships = []\<rparr>],
       on_commit = [], queue = [], messages = []\<rparr>) =
     \<lparr>export_tasks =
         [\<lparr>export_id = 4, export_org = 1, export_created_by = ''ann'', export_flows = [7],
           export_contact_fields = [], export_include_msgs = False,
           export_responded_only = True, export_extra_urns = [],
           export_group_memberships = []\<rparr>],
       on_commit = [], queue = [], messages = [ExportInProgress ''ann'']\<rparr>
   \<and> transaction_commit
       (snd (export_form_valid (\<lambda>tasks org. List.find (\<lambda>t. export_org t = org) tasks) False False 1
          ''bob''
          \<lparr>form_flows = [7], form_contact_fields = [], form_include_msgs = False,
           form_responded_only = True, form_extra_urns = [], form_group_memberships = []\<rparr>
          \<lparr>export_tasks = [], on_commit = [], queue = [], messages = []\<rparr>)) =
     \<lparr>export_tasks =
         [\<lparr>export_id = 1, export_org = 1, export_created_by = ''bob'', export_flows = [7],
           export_contact_fields = [], export_include_msgs = False,
           export_responded_only = True, export_extra_urns = [],
           export_group_memberships = []\<rparr>],
       on_commit = [], queue = [export_flow_results_task 1],
       messages = [PreparingExport ''bob'']\<rparr>"
proof -
  let ?get = "\<lambda>tasks org. List.find (\<lambda>t. export_org t = org) tasks"
  let ?form = "\<lparr>form_flows = [7], form_contact_fields = [], form_include_msgs = False,
       form_responded_only = True, form_extra_urns = [], form_group_memberships = []\<rparr>"
  let ?ann = "\<lparr>export_id = 4, export_org = 1, export_created_by = ''ann'', export_flows = [7],
           export_contact_fields = [], export_include_msgs = False,
           export_responded_only = True, export_extra_urns = [],
           export_group_memberships = []\<rparr>"
  let ?busy = "\<lparr>export_tasks = [?ann], on_commit = [], queue = [], messages = []\<rparr>"
  have found: "?get (export_tasks ?busy) 1 = Some ?ann"
    by simp
  have blocked: "snd (export_form_valid ?get False False 1 ''bob'' ?form ?busy) =
      ?busy\<lparr>messages := messages ?busy @ [ExportInProgress (export_created_by ?ann)]\<rparr>"
    using unfinished_export_blocks_another [of ?get ?busy 1 ?ann False False "''bob''" ?form] found
    by blast
  have started: "transaction_commit
       (snd (export_form_valid ?get False False 1 ''bob'' ?form
          \<lparr>export_tasks = [], on_commit = [], queue = [], messages = []\<rparr>)) =
     \<lparr>export_tasks =
         [\<lparr>export_id = 1, export_org = 1, export_created_by = ''bob'', export_flows = [7],
           export_contact_fields = [], export_include_msgs = False,
           export_responded_only = True, export_extra_urns = [],
           export_group_memberships = []\<rparr>],
       on_commit = [], queue = [export_flow_results_task 1],
       messages = [PreparingExport ''bob'']\<rparr>"
    by code_simp
  show ?thesis
    using blocked started by simp
qed

end
